theory Spec2Isabelle
  imports Main "HOL-Library.Sublist" "HOL-Library.Multiset"
begin

section \<open>Values, tasks and callbacks\<close>

text \<open>
  A shallow embedding of \<^verbatim>\<open>xT.js\<close>, the publish/subscribe task manager.

  JavaScript values are modelled by the datatype \<open>val\<close>.  A function value is a \<open>fn\<close>:
  \<^item> \<open>User n\<close> is a callback written by the user of the library.  It is opaque: what it
    returns is given by an environment \<open>env n this args\<close>, and it does not touch the
    dispatcher's state;
  \<^item> \<open>DefaultFilter\<close> is \<^verbatim>\<open>xT.#filter\<close>, \<open>CoreEmit\<close> is the static \<^verbatim>\<open>xT.emit\<close>;
  \<^item> \<open>QueueAcc name\<close>, \<open>OnBound name\<close> and \<open>InstEmit name\<close> are the three closures the
    constructor builds for the instance \<open>name\<close>: \<^verbatim>\<open>() => this.queue\<close>,
    \<^verbatim>\<open>xT.#on.bind(null, this.queue)\<close> and the instance's \<^verbatim>\<open>emit\<close> arrow function;
  \<^item> \<open>Bound f thisArg pre\<close> is \<^verbatim>\<open>f.bind(thisArg, ...pre)\<close>.

  A task is the object \<^verbatim>\<open>{ topic, cb, sort, stop, once, ...opts }\<close>.  Topics are strings and
  \<open>sort\<close>, \<open>stop\<close>, \<open>once\<close> are integers, as the source's JSDoc and the data model say;
  \<open>cb\<close> and \<open>ctx\<close> are arbitrary values (\<open>ctx\<close> is \<open>Undefined\<close> when the task has none).
  \<open>Obj n\<close> is an opaque object (used as a context or an argument) with no property named
  like a task field.  Arrays hold tasks, the only arrays the dispatcher handles.  \<open>ArrV q\<close>
  is an array nothing else refers to (what \<^verbatim>\<open>Array.prototype.filter\<close> returns);
  \<open>QueueRef name\<close> is the array in the \<^verbatim>\<open>queue\<close> field of the object constructed under
  \<open>name\<close>, the instance's own collection, whose contents are in the state.
\<close>

datatype fn =
    User nat
  | DefaultFilter
  | CoreEmit
  | QueueAcc string
  | OnBound string
  | InstEmit string
  | Bound fn val "val list"
and val =
    Undefined
  | Null
  | Num int
  | Str string
  | Obj nat
  | FnV fn
  | ArrV "task list"
  | QueueRef string
  | TaskV task
  | OptsV opts
and task =
    Task (t_topic: string) (t_cb: val) (t_sort: int) (t_stop: int) (t_once: int) (t_ctx: val)
and opts =
    Opts (o_topic: "string option") (o_cb: "val option") (o_sort: "int option")
         (o_stop: "int option") (o_once: "int option") (o_ctx: "val option")

text \<open>
  Exceptions.  \<open>RangeError\<close> is the exhausted call stack.  \<open>Unsupported\<close> is not a JavaScript
  exception: it ends a run that leaves the modelled fragment (a comparison \<^verbatim>\<open>==\<close> of a
  string with a number or an object, which converts its operands).
\<close>

datatype error =
    ReferenceError string
  | TypeError string
  | RangeError
  | Unsupported string

text \<open>The static fields \<^verbatim>\<open>#queue\<close> and \<^verbatim>\<open>#instances\<close>, the \<^verbatim>\<open>queue\<close> field of the object
  constructed under each name (absent means still empty), and the lines written by
  \<^verbatim>\<open>console.log\<close>.  \<open>instances\<close> maps a name to the own enumerable keys of the feature
  object its proxy wraps.\<close>

record xstate =
  queue :: "task list"
  instances :: "(string \<times> string list) list"
  queues :: "(string \<times> task list) list"
  console :: "string list"

definition init :: xstate where
  "init = \<lparr>queue = [], instances = [], queues = [], console = []\<rparr>"

type_synonym outcome = "(error + val) \<times> xstate"

text \<open>One callback invocation made by the loop of \<^verbatim>\<open>#emit\<close>: the task, the \<^verbatim>\<open>this\<close> it was
  called with, and what the call gave.\<close>

type_synonym invocation = "task \<times> val \<times> (error + val)"

type_synonym invoke = "fn \<Rightarrow> val \<Rightarrow> val list \<Rightarrow> xstate \<Rightarrow> outcome"

definition truthy :: "val \<Rightarrow> bool" where
  "truthy v = (case v of Undefined \<Rightarrow> False | Null \<Rightarrow> False | Num n \<Rightarrow> n \<noteq> 0
                 | Str s \<Rightarrow> s \<noteq> [] | _ \<Rightarrow> True)"

definition instanceof_Object :: "val \<Rightarrow> bool" where
  "instanceof_Object v = (case v of Undefined \<Rightarrow> False | Null \<Rightarrow> False | Num n \<Rightarrow> False
                 | Str s \<Rightarrow> False | _ \<Rightarrow> True)"

definition no_opts :: opts where
  "no_opts = Opts None None None None None None"

section \<open>The private static functions\<close>

subsection \<open>\<^verbatim>\<open>#filter\<close>\<close>

text \<open>
  \<^verbatim>\<open>(filterQueue, topic) => filterQueue.filter(task => task.topic == topic)\<close>.
  A task's topic is a string.  \<^verbatim>\<open>==\<close> between two strings is equality, and no string is
  \<^verbatim>\<open>==\<close> to \<^verbatim>\<open>undefined\<close> or \<^verbatim>\<open>null\<close>.  Against a number or an object \<^verbatim>\<open>==\<close> converts, which
  the model leaves out: there the run ends \<open>Unsupported\<close> as soon as there is a task to
  compare.
\<close>

definition comparable :: "val \<Rightarrow> bool" where
  "comparable v = (case v of Str s \<Rightarrow> True | Undefined \<Rightarrow> True | Null \<Rightarrow> True | _ \<Rightarrow> False)"

definition p_filter :: "task list \<Rightarrow> val \<Rightarrow> error + task list" where
  "p_filter filterQueue topic =
     (if filterQueue \<noteq> [] \<and> \<not> comparable topic
      then Inl (Unsupported ''== between a string and a number or an object'')
      else Inr (filter (\<lambda>task. Str (t_topic task) = topic) filterQueue))"

subsection \<open>\<^verbatim>\<open>#sortTasksByPriority\<close> and \<^verbatim>\<open>Array.prototype.sort\<close>\<close>

definition sortTasksByPriority :: "task \<Rightarrow> task \<Rightarrow> int" where
  "sortTasksByPriority taskA taskB = (if t_sort taskA < t_sort taskB then -1 else 1)"

text \<open>
  \<^verbatim>\<open>currentQueue.sort(cmp)\<close>.  ECMAScript leaves the algorithm to the engine.  The comparator
  never answers \<^verbatim>\<open>0\<close>: it puts a task before the tasks of greater \<open>sort\<close> and after all
  others.  The model is the stable insertion sort that engines run on short arrays: each
  element in turn goes before the first element it compares below, so tasks with equal
  \<open>sort\<close> keep their order.  For pairwise distinct \<open>sort\<close> values the result is the
  ascending arrangement, whatever the algorithm.
\<close>

fun insert_task :: "task \<Rightarrow> task list \<Rightarrow> task list" where
  "insert_task x [] = [x]"
| "insert_task x (y # ys) =
     (if sortTasksByPriority x y < 0 then x # y # ys else y # insert_task x ys)"

definition sort_tasks :: "task list \<Rightarrow> task list" where
  "sort_tasks currentQueue = foldl (\<lambda>acc x. insert_task x acc) [] currentQueue"

subsection \<open>\<^verbatim>\<open>#on\<close>\<close>

text \<open>
  \<^verbatim>\<open>let task = { topic, cb, sort: 0, stop: 0, once: 0, ...opts }; currentQueue.push(task);
  return task\<close>.  The spread comes last, so every key of \<open>opts\<close> replaces what stands
  before it.
\<close>

definition p_on :: "task list \<Rightarrow> string \<Rightarrow> val \<Rightarrow> opts \<Rightarrow> task \<times> task list" where
  "p_on currentQueue topic cb opts =
     (let task = Task (case o_topic opts of Some t \<Rightarrow> t | None \<Rightarrow> topic)
                      (case o_cb opts of Some c \<Rightarrow> c | None \<Rightarrow> cb)
                      (case o_sort opts of Some n \<Rightarrow> n | None \<Rightarrow> 0)
                      (case o_stop opts of Some n \<Rightarrow> n | None \<Rightarrow> 0)
                      (case o_once opts of Some n \<Rightarrow> n | None \<Rightarrow> 0)
                      (case o_ctx opts of Some c \<Rightarrow> c | None \<Rightarrow> Undefined)
      in (task, currentQueue @ [task]))"

subsection \<open>\<^verbatim>\<open>#emit\<close>\<close>

text \<open>
  The loop of \<^verbatim>\<open>#emit\<close> over the sorted queue.  \<open>ctx\<close> and \<open>taskReturn\<close> are the loop's two
  variables; \<open>ctx\<close> is assigned in every round and keeps its value into the next.
  \<open>invoke\<close> says what calling a function value does.  A \<open>cb\<close> that is no function makes
  \<^verbatim>\<open>task.cb.call\<close> throw a TypeError.  No binding named \<^verbatim>\<open>removeTask\<close> exists anywhere in the
  repository, so evaluating \<^verbatim>\<open>removeTask(task)\<close> throws a ReferenceError.
  Besides the outcome and the state the function returns the invocations it made, in
  order.
\<close>

definition resolve_ctx :: "val \<Rightarrow> task \<Rightarrow> val" where
  \<comment> \<open>\<^verbatim>\<open>ctx ? ctx : task.ctx ? task.ctx : task\<close>\<close>
  "resolve_ctx ctx task =
     (if truthy ctx then ctx else if truthy (t_ctx task) then t_ctx task else TaskV task)"

definition this_arg :: "val \<Rightarrow> task \<Rightarrow> val" where
  \<comment> \<open>\<^verbatim>\<open>ctx || task.ctx\<close>\<close>
  "this_arg ctx task = (if truthy ctx then ctx else t_ctx task)"

fun emit_loop ::
  "invoke \<Rightarrow> val list \<Rightarrow> task list \<Rightarrow> val \<Rightarrow> val \<Rightarrow> xstate \<Rightarrow> outcome \<times> invocation list" where
  "emit_loop invk args [] ctx taskReturn st = ((Inr taskReturn, st), [])"
| "emit_loop invk args (task # rest) ctx taskReturn st =
     (let ctx' = resolve_ctx ctx task in
      case t_cb task of
        FnV f \<Rightarrow>
          (case invk f (this_arg ctx' task) args st of
             (Inl e, st') \<Rightarrow> ((Inl e, st'), [(task, this_arg ctx' task, Inl e)])
           | (Inr result, st') \<Rightarrow>
               (let taskReturn' = (if truthy result then result else taskReturn) in
                if t_once task \<noteq> 0
                then ((Inl (ReferenceError ''removeTask is not defined''), st'),
                      [(task, this_arg ctx' task, Inr result)])
                else if t_stop task \<noteq> 0
                then ((Inr taskReturn', st'), [(task, this_arg ctx' task, Inr result)])
                else (case emit_loop invk args rest ctx' taskReturn' st' of
                        (out, fired) \<Rightarrow> (out, (task, this_arg ctx' task, Inr result) # fired))))
      | _ \<Rightarrow> ((Inl (TypeError ''task.cb.call is not a function''), st), []))"

definition p_emit :: "invoke \<Rightarrow> task list \<Rightarrow> val list \<Rightarrow> val \<Rightarrow> xstate \<Rightarrow> outcome \<times> invocation list" where
  "p_emit invk currentQueue args ctx st =
     emit_loop invk args (sort_tasks currentQueue) ctx Undefined st"

section \<open>The static surface\<close>

definition xT_on :: "string \<Rightarrow> val \<Rightarrow> opts \<Rightarrow> xstate \<Rightarrow> task \<times> xstate" where
  "xT_on topic cb opts st =
     (case p_on (queue st) topic cb opts of (task, q) \<Rightarrow> (task, st\<lparr>queue := q\<rparr>))"

text \<open>
  \<^verbatim>\<open>ctx = args[0] instanceof Object ? args.shift() : null, topic = args.shift()\<close>: the two
  lines that open both the static \<^verbatim>\<open>emit\<close> and an instance's \<^verbatim>\<open>emit\<close>.
\<close>

definition shift_ctx_topic :: "val list \<Rightarrow> val \<times> val \<times> val list" where
  "shift_ctx_topic args =
     (case args of
        [] \<Rightarrow> (Null, Undefined, [])
      | a # as \<Rightarrow>
          if instanceof_Object a
          then (case as of [] \<Rightarrow> (a, Undefined, []) | t # ts \<Rightarrow> (a, t, ts))
          else (Null, a, as))"

definition xT_emit :: "invoke \<Rightarrow> val list \<Rightarrow> xstate \<Rightarrow> outcome \<times> invocation list" where
  "xT_emit invk args st =
     (case shift_ctx_topic args of
        (ctx, topic, args') \<Rightarrow>
          (case p_filter (queue st) topic of
             Inl e \<Rightarrow> ((Inl e, st), [])
           | Inr topicQueue \<Rightarrow> p_emit invk topicQueue args' ctx st))"

section \<open>Instances\<close>

subsection \<open>Feature objects\<close>

text \<open>
  A plain object with string keys is the list of its own enumerable properties in the
  order they were created.  Writing a key that exists replaces the value and keeps the
  key's place; a spread \<^verbatim>\<open>{...src}\<close> writes the properties of \<open>src\<close> one after the other.
\<close>

fun set_prop :: "(string \<times> val) list \<Rightarrow> string \<Rightarrow> val \<Rightarrow> (string \<times> val) list" where
  "set_prop [] k v = [(k, v)]"
| "set_prop ((k', v') # ps) k v =
     (if k' = k then (k, v) # ps else (k', v') # set_prop ps k v)"

definition spread :: "(string \<times> val) list \<Rightarrow> (string \<times> val) list \<Rightarrow> (string \<times> val) list" where
  "spread obj src = foldl (\<lambda>ob (k, v). set_prop ob k v) obj src"

text \<open>
  \<^verbatim>\<open>Object.entries\<close> and \<^verbatim>\<open>Object.keys\<close> list the keys that are array indices first, in
  ascending numeric order, then the other keys in creation order.  An array index is the
  canonical decimal numeral of a number below \<open>2^32 - 1\<close>.
\<close>

definition is_digit :: "char \<Rightarrow> bool" where
  "is_digit c = (48 \<le> (of_char c :: nat) \<and> (of_char c :: nat) \<le> 57)"

definition dec_val :: "string \<Rightarrow> nat" where
  "dec_val s = foldl (\<lambda>n c. 10 * n + ((of_char c :: nat) - 48)) 0 s"

definition array_index :: "string \<Rightarrow> bool" where
  "array_index s =
     (s \<noteq> [] \<and> list_all is_digit s \<and> (s = ''0'' \<or> hd s \<noteq> CHR ''0'') \<and> dec_val s < 4294967295)"

definition object_entries :: "(string \<times> val) list \<Rightarrow> (string \<times> val) list" where
  "object_entries obj =
     sort_key (\<lambda>(k, v). dec_val k) (filter (\<lambda>(k, v). array_index k) obj)
       @ filter (\<lambda>(k, v). \<not> array_index k) obj"

definition object_keys :: "(string \<times> val) list \<Rightarrow> string list" where
  "object_keys obj = map fst (object_entries obj)"

definition feature_topic :: "string \<Rightarrow> string \<Rightarrow> string" where
  "feature_topic name k = ''$'' @ name @ '':'' @ k"

text \<open>
  \<^verbatim>\<open>{ filter: xT.#filter, ...features, queue: ..., on: ..., emit: ... }\<close>, the object the
  constructor assigns to \<open>features\<close>.
\<close>

definition effective_features :: "string \<Rightarrow> (string \<times> val) list \<Rightarrow> (string \<times> val) list" where
  "effective_features name features =
     set_prop (set_prop (set_prop (spread [(''filter'', FnV DefaultFilter)] features)
        ''queue'' (FnV (QueueAcc name)))
        ''on'' (FnV (OnBound name)))
        ''emit'' (FnV (InstEmit name))"

subsection \<open>The constructor\<close>

text \<open>
  \<^verbatim>\<open>#instances\<close> is the object literal \<^verbatim>\<open>{}\<close>, so \<^verbatim>\<open>xT.#instances[name]\<close> finds, besides the
  proxies stored in it, the properties every object inherits from \<^verbatim>\<open>Object.prototype\<close>.
  All of them are functions or objects, hence truthy.
\<close>

definition object_prototype_keys :: "string list" where
  "object_prototype_keys =
     [''constructor'', ''__defineGetter__'', ''__defineSetter__'', ''hasOwnProperty'',
      ''__lookupGetter__'', ''__lookupSetter__'', ''isPrototypeOf'', ''propertyIsEnumerable'',
      ''toString'', ''valueOf'', ''__proto__'', ''toLocaleString'']"

text \<open>What \<^verbatim>\<open>new xT(name, features)\<close> evaluates to: the proxy stored under a name (one
  proxy is ever made per name, so the name identifies the object), or the member of
  \<^verbatim>\<open>Object.prototype\<close> of that name.\<close>

datatype handle = Proxy string | Inherited string

definition instances_get :: "xstate \<Rightarrow> string \<Rightarrow> handle option" where
  "instances_get st name =
     (case map_of (instances st) name of
        Some ks \<Rightarrow> Some (Proxy name)
      | None \<Rightarrow> if name \<in> set object_prototype_keys then Some (Inherited name) else None)"

definition register_features :: "string \<Rightarrow> (string \<times> val) list \<Rightarrow> xstate \<Rightarrow> xstate" where
  "register_features name entries st =
     foldl (\<lambda>s (k, action). snd (xT_on (feature_topic name k) action no_opts s)) st entries"

definition new_xT :: "string \<Rightarrow> (string \<times> val) list \<Rightarrow> xstate \<Rightarrow> handle \<times> xstate" where
  "new_xT name features st =
     (case instances_get st name of
        Some h \<Rightarrow> (h, st\<lparr>console := console st @ [''Return existing instance'']\<rparr>)
      | None \<Rightarrow>
          (let features' = effective_features name features;
               st' = register_features name (object_entries features') st
           in (Proxy name, st'\<lparr>instances := instances st' @ [(name, object_keys features')]\<rparr>)))"

subsection \<open>The proxy's \<^verbatim>\<open>get\<close> trap\<close>

text \<open>
  \<open>keys\<close> is \<^verbatim>\<open>Object.keys(features)\<close>.  The first branch returns
  \<^verbatim>\<open>xT.emit.bind(null, `$${name}:${prop}`)\<close>.  The second reads
  \<^verbatim>\<open>xT.#instances[name].emit\<close>, which is this trap again at \<^verbatim>\<open>'emit'\<close> (were \<^verbatim>\<open>'emit'\<close> no key, the
  trap would call itself until the stack is exhausted), and calls \<^verbatim>\<open>.bind(prop)\<close> on the
  result: \<open>prop\<close> becomes the \<^verbatim>\<open>this\<close> argument of the new bound function, and no argument
  is supplied in advance.

  The constructor defines the property \<^verbatim>\<open>name\<close> on the feature object with
  \<^verbatim>\<open>Object.defineProperty(features, 'name', { value: name })\<close>.  When the caller supplied no
  feature called \<^verbatim>\<open>name\<close>, that property is new: not enumerable (so no key), not writable and
  not configurable, and for such a property a proxy must report the target's own value.
  The trap returns a function instead, so reading \<^verbatim>\<open>u.name\<close> throws a TypeError once the
  trap has returned.  A supplied feature called \<^verbatim>\<open>name\<close> stays enumerable, writable and
  configurable, and is served by the first branch.
\<close>

definition feature_invoker :: "string \<Rightarrow> string \<Rightarrow> fn" where
  "feature_invoker name pname = Bound CoreEmit Null [Str (feature_topic name pname)]"

definition proxy_get :: "string list \<Rightarrow> string \<Rightarrow> string \<Rightarrow> error + fn" where
  "proxy_get keys name pname =
     (if pname \<in> set keys then Inr (feature_invoker name pname)
      else if ''emit'' \<notin> set keys then Inl RangeError
      else if pname = ''name''
      then Inl (TypeError ''proxy get: the value of a non-writable, non-configurable property'')
      else Inr (Bound (feature_invoker name ''emit'') (Str pname) []))"

subsection \<open>What the built-in closures do\<close>

definition nth_arg :: "val list \<Rightarrow> nat \<Rightarrow> val" where
  "nth_arg args i = (if i < length args then args ! i else Undefined)"

definition local_queue :: "xstate \<Rightarrow> string \<Rightarrow> task list" where
  "local_queue st name = (case map_of (queues st) name of Some q \<Rightarrow> q | None \<Rightarrow> [])"

fun set_queue :: "(string \<times> task list) list \<Rightarrow> string \<Rightarrow> task list \<Rightarrow> (string \<times> task list) list" where
  "set_queue [] name q = [(name, q)]"
| "set_queue ((n, q') # qs) name q =
     (if n = name then (name, q) # qs else (n, q') # set_queue qs name q)"

text \<open>\<^verbatim>\<open>xT.#filter\<close> called with an argument list: a first argument that is no array has no
  method \<^verbatim>\<open>filter\<close>; the result is a new array.\<close>

definition filter_cb :: "xstate \<Rightarrow> val list \<Rightarrow> error + val" where
  "filter_cb st args =
     (case nth_arg args 0 of
        ArrV q \<Rightarrow> (case p_filter q (nth_arg args 1) of Inl e \<Rightarrow> Inl e | Inr r \<Rightarrow> Inr (ArrV r))
      | QueueRef m \<Rightarrow>
          (case p_filter (local_queue st m) (nth_arg args 1) of
             Inl e \<Rightarrow> Inl e | Inr r \<Rightarrow> Inr (ArrV r))
      | _ \<Rightarrow> Inl (TypeError ''filterQueue.filter is not a function''))"

text \<open>The own enumerable properties \<^verbatim>\<open>...opts\<close> copies from a value: those of an options
  object or of a task; a missing \<open>opts\<close> defaults to \<^verbatim>\<open>{}\<close>, and the other values have no
  property named like a task field.\<close>

definition opts_of :: "val \<Rightarrow> opts" where
  "opts_of v =
     (case v of
        OptsV o' \<Rightarrow> o'
      | TaskV t \<Rightarrow> Opts (Some (t_topic t)) (Some (t_cb t)) (Some (t_sort t)) (Some (t_stop t))
                        (Some (t_once t)) (Some (t_ctx t))
      | _ \<Rightarrow> no_opts)"

text \<open>\<^verbatim>\<open>xT.#on.bind(null, this.queue)\<close> called with an argument list.  Task topics are strings
  in the model, so a first argument that is no string ends the run \<open>Unsupported\<close>.\<close>

definition on_bound :: "string \<Rightarrow> val list \<Rightarrow> xstate \<Rightarrow> outcome" where
  "on_bound name args st =
     (case nth_arg args 0 of
        Str topic \<Rightarrow>
          (case p_on (local_queue st name) topic (nth_arg args 1) (opts_of (nth_arg args 2)) of
             (task, q) \<Rightarrow> (Inr (TaskV task), st\<lparr>queues := set_queue (queues st) name q\<rparr>))
      | _ \<Rightarrow> (Inl (Unsupported ''a topic that is no string''), st))"

text \<open>
  \<^verbatim>\<open>#emit\<close> handed the own collection of the instance \<open>m\<close> itself: \<^verbatim>\<open>sort\<close> works in place, so
  the collection is left sorted, and the loop reads the elements of that array as it goes.
  Nothing ever removes an element; when the collection at the end is still the sorted
  one, nothing was appended and the loop saw exactly the sorted tasks.  A run in which
  tasks are appended to the collection while the loop goes over it is left out of the
  model and ends \<open>Unsupported\<close>.
\<close>

definition p_emit_own :: "invoke \<Rightarrow> string \<Rightarrow> val list \<Rightarrow> val \<Rightarrow> xstate \<Rightarrow> outcome \<times> invocation list" where
  "p_emit_own invk m args ctx st =
     (let sorted = sort_tasks (local_queue st m);
          st1 = st\<lparr>queues := set_queue (queues st) m sorted\<rparr>
      in case emit_loop invk args sorted ctx Undefined st1 of
           ((out, st2), fired) \<Rightarrow>
             if local_queue st2 m = sorted then ((out, st2), fired)
             else ((Inl (Unsupported ''tasks appended to a queue under the loop''), st2), fired))"

text \<open>
  The instance's \<^verbatim>\<open>emit\<close>:
  \<^verbatim>\<open>topicQueue = xT.emit(`$${name}:filter`, this.queue, topic);
  return xT.#emit(topicQueue, args, ctx)\<close>.  \<^verbatim>\<open>this.queue\<close> is the instance's own collection.
  A \<open>topicQueue\<close> that is no array has no method \<^verbatim>\<open>sort\<close>.
\<close>

definition inst_emit :: "invoke \<Rightarrow> string \<Rightarrow> val list \<Rightarrow> xstate \<Rightarrow> outcome \<times> invocation list" where
  "inst_emit invk name args st =
     (case shift_ctx_topic args of
        (ctx, topic, args') \<Rightarrow>
          (case fst (xT_emit invk [Str (feature_topic name ''filter''), QueueRef name, topic] st) of
             (Inl e, st') \<Rightarrow> ((Inl e, st'), [])
           | (Inr (ArrV topicQueue), st') \<Rightarrow> p_emit invk topicQueue args' ctx st'
           | (Inr (QueueRef m), st') \<Rightarrow> p_emit_own invk m args' ctx st'
           | (Inr _, st') \<Rightarrow> ((Inl (TypeError ''topicQueue.sort is not a function''), st'), [])))"

text \<open>
  Calling a function value.  \<open>d\<close> bounds the depth of nested calls: a call at depth \<open>0\<close> is
  the stack overflow.  \<open>env\<close> gives the user callbacks' return values.  Arrow functions
  and bound functions ignore the \<^verbatim>\<open>this\<close> they are called with.
\<close>

primrec call :: "(nat \<Rightarrow> val \<Rightarrow> val list \<Rightarrow> val) \<Rightarrow> nat \<Rightarrow> invoke" where
  "call env 0 = (\<lambda>f this args st. (Inl RangeError, st))"
| "call env (Suc d) = (\<lambda>f this args st.
     case f of
       User n \<Rightarrow> (Inr (env n this args), st)
     | DefaultFilter \<Rightarrow> (filter_cb st args, st)
     | CoreEmit \<Rightarrow> fst (xT_emit (call env d) args st)
     | QueueAcc name \<Rightarrow> (Inr (QueueRef name), st)
     | OnBound name \<Rightarrow> on_bound name args st
     | InstEmit name \<Rightarrow> fst (inst_emit (call env d) name args st)
     | Bound g this' pre \<Rightarrow> call env d g this' (pre @ args) st)"

text \<open>
  \<^verbatim>\<open>u.prop(...args)\<close> for the proxy \<open>u\<close> stored under \<open>name\<close>: the trap's result is called with
  the arguments.  (What the trap returns is a bound function, so the \<^verbatim>\<open>this\<close> of the call
  plays no part.)  Under a name that was never constructed there is no proxy to call.
\<close>

definition proxy_call ::
  "(nat \<Rightarrow> val \<Rightarrow> val list \<Rightarrow> val) \<Rightarrow> nat \<Rightarrow> string \<Rightarrow> string \<Rightarrow> val list \<Rightarrow> xstate \<Rightarrow> outcome" where
  "proxy_call env d name pname args st =
     (case map_of (instances st) name of
        None \<Rightarrow> (Inl (TypeError ''Cannot read properties of undefined''), st)
      | Some ks \<Rightarrow>
          (case proxy_get ks name pname of
             Inl e \<Rightarrow> (Inl e, st)
           | Inr f \<Rightarrow> call env d f Undefined args st))"

section \<open>Calling callbacks in a given order\<close>

text \<open>
  What it is to call the callbacks of a list of tasks one after the other, each with its
  \<^verbatim>\<open>this\<close> and all with the arguments \<open>args\<close>: the first call starts in the given state,
  every later call in the state the call before it left, and the calls give their results
  in that order and the state after the last of them.
\<close>

fun call_in_order ::
  "invoke \<Rightarrow> val list \<Rightarrow> (task \<times> val) list \<Rightarrow> xstate \<Rightarrow> (error + val) list \<times> xstate" where
  "call_in_order invk args [] st = ([], st)"
| "call_in_order invk args ((task, this) # rest) st =
     (case t_cb task of
        FnV f \<Rightarrow>
          (case invk f this args st of
             (r, st') \<Rightarrow>
               (case call_in_order invk args rest st' of (rs, st'') \<Rightarrow> (r # rs, st'')))
      | _ \<Rightarrow> ([], st))"

section \<open>The last truthy value\<close>

text \<open>What the specification calls the last truthy value among the return values of the
  executed callbacks, with a default for when there is none.\<close>

definition last_truthy :: "val \<Rightarrow> (error + val) list \<Rightarrow> val" where
  "last_truthy dflt rs =
     foldl (\<lambda>acc r. case r of Inr v \<Rightarrow> if truthy v then v else acc | Inl e \<Rightarrow> acc) dflt rs"

section \<open>Scenarios\<close>

text \<open>Concrete runs used below.  \<open>demo_env\<close> makes the user callback \<open>0\<close> return \<^verbatim>\<open>0\<close>, the
  callback \<open>8\<close> return its first argument (\<^verbatim>\<open>(a, b) => a\<close>), the callback \<open>9\<close> its second
  (\<^verbatim>\<open>(a, b) => b\<close>) and every other callback \<open>n\<close> return the number \<open>n\<close>.\<close>

definition demo_env :: "nat \<Rightarrow> val \<Rightarrow> val list \<Rightarrow> val" where
  "demo_env n this args =
     (if n = 0 then Num 0 else if n = 8 then nth_arg args 0
      else if n = 9 then nth_arg args 1 else Num (int n))"

text \<open>\<^verbatim>\<open>on('t', cb1, {sort:-1}); on('t', cb2, {sort:1, stop:1}); on('t', cb3, {sort:2})\<close>\<close>

definition stop_scenario :: xstate where
  "stop_scenario =
     snd (xT_on ''t'' (FnV (User 3)) (Opts None None (Some 2) None None None)
    (snd (xT_on ''t'' (FnV (User 2)) (Opts None None (Some 1) (Some 1) None None)
    (snd (xT_on ''t'' (FnV (User 1)) (Opts None None (Some (-1)) None None None) init)))))"

text \<open>\<^verbatim>\<open>on('t', cb3, {sort:5}); on('s', cb4); on('t', cb1, {sort:-3}); on('t', cb2, {sort:1})\<close>\<close>

definition order_scenario :: xstate where
  "order_scenario =
     snd (xT_on ''t'' (FnV (User 2)) (Opts None None (Some 1) None None None)
    (snd (xT_on ''t'' (FnV (User 1)) (Opts None None (Some (-3)) None None None)
    (snd (xT_on ''s'' (FnV (User 4)) no_opts
    (snd (xT_on ''t'' (FnV (User 3)) (Opts None None (Some 5) None None None) init)))))))"

text \<open>\<^verbatim>\<open>on('t', cb, {once:1})\<close>\<close>

definition once_scenario :: "val \<Rightarrow> xstate" where
  "once_scenario cb = snd (xT_on ''t'' cb (Opts None None None None (Some 1) None) init)"

text \<open>\<^verbatim>\<open>on('t', cb1, {once:1, stop:1}); on('t', cb2, {sort:1})\<close>\<close>

definition once_stop_scenario :: xstate where
  "once_stop_scenario =
     snd (xT_on ''t'' (FnV (User 2)) (Opts None None (Some 1) None None None)
    (snd (xT_on ''t'' (FnV (User 1)) (Opts None None None (Some 1) (Some 1) None) init)))"

text \<open>\<^verbatim>\<open>on('t', cb1, {ctx: A}); on('t', cb2, {ctx: B})\<close> with two objects \<open>A = Obj 1\<close> and
  \<open>B = Obj 2\<close>\<close>

definition ctx_scenario :: xstate where
  "ctx_scenario =
     snd (xT_on ''t'' (FnV (User 2)) (Opts None None None None None (Some (Obj 2)))
    (snd (xT_on ''t'' (FnV (User 1)) (Opts None None None None None (Some (Obj 1))) init)))"

text \<open>\<^verbatim>\<open>u = new xT('u'); u.on('foo', cb1); u.on('bar', cb2); u.on('topic', cb9);
  u.on('topic', cb3, {sort: -1})\<close>\<close>

definition inst_scenario :: xstate where
  "inst_scenario =
     snd (proxy_call demo_env (Suc (Suc (Suc 0))) ''u'' ''on''
            [Str ''topic'', FnV (User 3), OptsV (Opts None None (Some (-1)) None None None)]
    (snd (proxy_call demo_env (Suc (Suc (Suc 0))) ''u'' ''on'' [Str ''topic'', FnV (User 9)]
    (snd (proxy_call demo_env (Suc (Suc (Suc 0))) ''u'' ''on'' [Str ''bar'', FnV (User 2)]
    (snd (proxy_call demo_env (Suc (Suc (Suc 0))) ''u'' ''on'' [Str ''foo'', FnV (User 1)]
    (snd (new_xT ''u'' [] init)))))))))"

text \<open>An instance whose filter hands back the collection it is given:
  \<^verbatim>\<open>v = new xT('v', {filter: (q, topic) => q}); v.on('x', cb1, {sort: 2});
  v.on('y', cb2, {sort: 1})\<close>\<close>

definition own_scenario :: xstate where
  "own_scenario =
     snd (proxy_call demo_env (Suc (Suc (Suc 0))) ''v'' ''on''
            [Str ''y'', FnV (User 2), OptsV (Opts None None (Some 1) None None None)]
    (snd (proxy_call demo_env (Suc (Suc (Suc 0))) ''v'' ''on''
            [Str ''x'', FnV (User 1), OptsV (Opts None None (Some 2) None None None)]
    (snd (new_xT ''v'' [(''filter'', FnV (User 8))] init)))))"

section \<open>Calling a function value\<close>

text \<open>The equation of \<open>call\<close> at a positive depth, for a call with all its arguments.\<close>

lemma call_Suc [simp]:
  "call env (Suc d) f this args st =
     (case f of
        User n \<Rightarrow> (Inr (env n this args), st)
      | DefaultFilter \<Rightarrow> (filter_cb st args, st)
      | CoreEmit \<Rightarrow> fst (xT_emit (call env d) args st)
      | QueueAcc name \<Rightarrow> (Inr (QueueRef name), st)
      | OnBound name \<Rightarrow> on_bound name args st
      | InstEmit name \<Rightarrow> fst (inst_emit (call env d) name args st)
      | Bound g this' pre \<Rightarrow> call env d g this' (pre @ args) st)"
  by simp

declare call.simps(2) [simp del]

lemma call_Bound_this:
  "call env d (Bound g t pre) this args st = call env d (Bound g t pre) this' args st"
  by (cases d) simp_all

section \<open>Sorting and the loop\<close>

lemmas run_simps = xT_on_def p_on_def init_def xT_emit_def shift_ctx_topic_def
  instanceof_Object_def p_filter_def comparable_def p_emit_def sort_tasks_def
  sortTasksByPriority_def resolve_ctx_def this_arg_def truthy_def no_opts_def Let_def

lemma set_insert_task: "set (insert_task x xs) = insert x (set xs)"
  by (induction xs) auto

lemma mset_insert_task: "mset (insert_task x xs) = add_mset x (mset xs)"
  by (induction xs) auto

lemma sorted_insert_task:
  "sorted_wrt (\<lambda>a b. t_sort a \<le> t_sort b) xs \<Longrightarrow>
   sorted_wrt (\<lambda>a b. t_sort a \<le> t_sort b) (insert_task x xs)"
  by (induction xs) (auto simp: set_insert_task sortTasksByPriority_def)

lemma mset_foldl_insert:
  "mset (foldl (\<lambda>acc x. insert_task x acc) acc xs) = mset acc + mset xs"
  by (induction xs arbitrary: acc) (auto simp: mset_insert_task)

lemma sorted_foldl_insert:
  "sorted_wrt (\<lambda>a b. t_sort a \<le> t_sort b) acc \<Longrightarrow>
   sorted_wrt (\<lambda>a b. t_sort a \<le> t_sort b) (foldl (\<lambda>acc x. insert_task x acc) acc xs)"
  by (induction xs arbitrary: acc) (auto simp: sorted_insert_task)

lemma mset_sort_tasks: "mset (sort_tasks q) = mset q"
  by (simp add: sort_tasks_def mset_foldl_insert)

lemma sorted_sort_tasks: "sorted_wrt (\<lambda>a b. t_sort a \<le> t_sort b) (sort_tasks q)"
  by (simp add: sort_tasks_def sorted_foldl_insert)

lemma distinct_sort_tasks:
  "distinct (map t_sort q) \<Longrightarrow> distinct (map t_sort (sort_tasks q))"
proof -
  assume d: "distinct (map t_sort q)"
  have "mset (map t_sort (sort_tasks q)) = mset (map t_sort q)"
    by (metis mset_map mset_sort_tasks)
  then show ?thesis using d by (metis mset_eq_imp_distinct_iff)
qed

lemma strict_from_distinct:
  "sorted_wrt (\<lambda>a b. t_sort a \<le> t_sort b) xs \<Longrightarrow> distinct (map t_sort xs) \<Longrightarrow>
   sorted_wrt (\<lambda>a b. t_sort a < t_sort b) xs"
  by (induction xs) (auto simp: order_less_le)

lemma strict_sort_tasks:
  "distinct (map t_sort q) \<Longrightarrow> sorted_wrt (\<lambda>a b. t_sort a < t_sort b) (sort_tasks q)"
  by (simp add: strict_from_distinct sorted_sort_tasks distinct_sort_tasks)

lemma fired_prefix_rel:
  "emit_loop invk args ts ctx ret st = (out, fired) \<Longrightarrow> prefix (map fst fired) ts"
proof (induction ts arbitrary: ctx ret st out fired)
  case Nil
  then show ?case by simp
next
  case (Cons t ts)
  show ?case
  proof (cases "t_cb t")
    case (FnV f)
    show ?thesis
    proof (cases "invk f (this_arg (resolve_ctx ctx t) t) args st")
      case (Pair r st')
      show ?thesis
      proof (cases r)
        case (Inl e)
        with Cons.prems FnV Pair show ?thesis by (auto simp: Let_def)
      next
        case (Inr result)
        with Cons.prems FnV Pair show ?thesis
          by (auto simp: Let_def split: if_splits prod.splits dest: Cons.IH)
      qed
    qed
  qed (use Cons.prems in \<open>auto simp: Let_def\<close>)
qed

lemma fired_prefix:
  "prefix (map fst (snd (emit_loop invk args ts ctx ret st))) ts"
  using fired_prefix_rel [of invk args ts ctx ret st] by (cases "emit_loop invk args ts ctx ret st") auto

lemma sorted_wrt_prefix:
  "prefix xs ys \<Longrightarrow> sorted_wrt P ys \<Longrightarrow> sorted_wrt P xs"
  by (auto simp: prefix_def sorted_wrt_append)

lemma stop_halts_aux:
  assumes "t_stop task \<noteq> 0"
  shows "emit_loop invk args (pre @ task # post) ctx ret st
       = emit_loop invk args (pre @ [task]) ctx ret st"
proof (induction pre arbitrary: ctx ret st)
  case Nil
  show ?case using assms
    by (simp add: Let_def split: val.splits prod.splits sum.splits)
next
  case (Cons t pre)
  show ?case
    by (simp add: Let_def Cons.IH split: val.splits prod.splits sum.splits)
qed


lemma fired_all:
  assumes "\<forall>t \<in> set ts. t_once t = 0 \<and> t_stop t = 0
             \<and> (\<forall>th s. \<exists>f v s'. t_cb t = FnV f \<and> invk f th args s = (Inr v, s'))"
  shows "map fst (snd (emit_loop invk args ts ctx ret st)) = ts
       \<and> (\<exists>v st'. fst (emit_loop invk args ts ctx ret st) = (Inr v, st'))"
  using assms
proof (induction ts arbitrary: ctx ret st)
  case Nil
  show ?case by simp
next
  case (Cons t ts)
  from Cons.prems obtain f v s' where
    f: "t_cb t = FnV f" and
    c: "invk f (this_arg (resolve_ctx ctx t) t) args st = (Inr v, s')"
    by (metis list.set_intros(1))
  from Cons.prems have o: "t_once t = 0" "t_stop t = 0" by simp_all
  from Cons.prems have r: "\<forall>t \<in> set ts. t_once t = 0 \<and> t_stop t = 0
             \<and> (\<forall>th s. \<exists>f v s'. t_cb t = FnV f \<and> invk f th args s = (Inr v, s'))"
    by simp
  show ?case
    using Cons.IH [OF r, of "resolve_ctx ctx t" "if truthy v then v else ret" s']
    by (cases "truthy v") (auto simp: f c o Let_def split: prod.splits)
qed

lemma emit_loop_last_truthy:
  "emit_loop invk args ts ctx ret st = ((Inr v, st'), fired) \<Longrightarrow>
   v = last_truthy ret (map (snd \<circ> snd) fired)"
proof (induction ts arbitrary: ctx ret st st' fired)
  case Nil
  then show ?case by (auto simp: last_truthy_def)
next
  case (Cons t ts)
  show ?case
  proof (cases "t_cb t")
    case (FnV f)
    show ?thesis
    proof (cases "invk f (this_arg (resolve_ctx ctx t) t) args st")
      case (Pair r s1)
      show ?thesis
      proof (cases r)
        case (Inl e)
        with Cons.prems FnV Pair show ?thesis by (simp add: Let_def)
      next
        case (Inr result)
        with Cons.prems FnV Pair show ?thesis
          by (auto simp: Let_def last_truthy_def split: if_splits prod.splits dest: Cons.IH)
      qed
    qed
  qed (use Cons.prems in \<open>auto simp: Let_def\<close>)
qed

lemma emit_loop_returns:
  assumes "\<forall>t \<in> set ts. t_once t = 0
             \<and> (\<forall>th s. \<exists>f v s'. t_cb t = FnV f \<and> invk f th args s = (Inr v, s'))"
  shows "\<exists>v st'. fst (emit_loop invk args ts ctx ret st) = (Inr v, st')"
  using assms
proof (induction ts arbitrary: ctx ret st)
  case Nil
  show ?case by simp
next
  case (Cons t ts)
  from Cons.prems obtain f v s' where
    f: "t_cb t = FnV f" and
    c: "invk f (this_arg (resolve_ctx ctx t) t) args st = (Inr v, s')"
    by (metis list.set_intros(1))
  from Cons.prems have o: "t_once t = 0" by simp
  from Cons.prems have r: "\<forall>t \<in> set ts. t_once t = 0
             \<and> (\<forall>th s. \<exists>f v s'. t_cb t = FnV f \<and> invk f th args s = (Inr v, s'))"
    by simp
  show ?case
    using Cons.IH [OF r, of "resolve_ctx ctx t" "if truthy v then v else ret" s']
    by (cases "truthy v") (auto simp: f c o Let_def split: prod.splits)
qed

lemma stop_is_last_rel:
  "emit_loop invk args ts ctx ret st = (out, fired) \<Longrightarrow>
   x \<in> set (butlast fired) \<Longrightarrow> t_stop (fst x) = 0"
proof (induction ts arbitrary: ctx ret st out fired)
  case Nil
  then show ?case by simp
next
  case (Cons t ts)
  show ?case
  proof (cases "t_cb t")
    case (FnV f)
    show ?thesis
    proof (cases "invk f (this_arg (resolve_ctx ctx t) t) args st")
      case (Pair r st')
      show ?thesis
      proof (cases r)
        case (Inl e)
        with Cons.prems FnV Pair show ?thesis by (auto simp: Let_def)
      next
        case (Inr result)
        with Cons.prems FnV Pair show ?thesis
          by (auto simp: Let_def split: if_splits prod.splits dest: Cons.IH)
      qed
    qed
  qed (use Cons.prems in \<open>auto simp: Let_def\<close>)
qed

lemma stop_is_last:
  "\<forall>x \<in> set (butlast (snd (xT_emit invk args st))). t_stop (fst x) = 0"
proof -
  obtain ctx topic args' where sh: "shift_ctx_topic args = (ctx, topic, args')"
    by (metis prod_cases3)
  show ?thesis
  proof (cases "p_filter (queue st) topic")
    case (Inl e)
    with sh show ?thesis by (simp add: xT_emit_def)
  next
    case (Inr tq)
    then have e: "xT_emit invk args st = emit_loop invk args' (sort_tasks tq) ctx Undefined st"
      using sh by (simp add: xT_emit_def p_emit_def)
    show ?thesis
      unfolding e using stop_is_last_rel [of invk args' "sort_tasks tq" ctx Undefined st]
      by (metis prod.collapse)
  qed
qed

lemma set_sort_tasks: "set (sort_tasks q) = set q"
  by (metis mset_sort_tasks set_mset_mset)

lemma insert_task_last:
  "\<forall>y \<in> set acc. t_sort y \<le> t_sort x \<Longrightarrow> insert_task x acc = acc @ [x]"
  by (induction acc) (auto simp: sortTasksByPriority_def)

lemma foldl_insert_sorted:
  "sorted_wrt (\<lambda>a b. t_sort a \<le> t_sort b) (acc @ xs) \<Longrightarrow>
   foldl (\<lambda>acc x. insert_task x acc) acc xs = acc @ xs"
proof (induction xs arbitrary: acc)
  case Nil
  show ?case by simp
next
  case (Cons x xs)
  have "insert_task x acc = acc @ [x]"
    using Cons.prems by (intro insert_task_last) (auto simp: sorted_wrt_append)
  then show ?case using Cons.IH [of "acc @ [x]"] Cons.prems by simp
qed

lemma sort_tasks_sorted:
  "sorted_wrt (\<lambda>a b. t_sort a \<le> t_sort b) q \<Longrightarrow> sort_tasks q = q"
  using foldl_insert_sorted [of "[]" q] by (simp add: sort_tasks_def)

lemma sort_tasks_idem: "sort_tasks (sort_tasks q) = sort_tasks q"
  by (simp add: sort_tasks_sorted sorted_sort_tasks)

lemma emit_loop_calls_rel:
  "emit_loop invk args ts ctx ret st = ((out, st'), fired) \<Longrightarrow>
   call_in_order invk args (map (\<lambda>(t, th, r). (t, th)) fired) st = (map (snd \<circ> snd) fired, st')"
proof (induction ts arbitrary: ctx ret st out st' fired)
  case Nil
  then show ?case by auto
next
  case (Cons t ts)
  show ?case
  proof (cases "t_cb t")
    case (FnV f)
    show ?thesis
    proof (cases "invk f (this_arg (resolve_ctx ctx t) t) args st")
      case (Pair r s1)
      show ?thesis
      proof (cases r)
        case (Inl e)
        with Cons.prems FnV Pair show ?thesis by (auto simp: Let_def)
      next
        case (Inr result)
        with Cons.prems FnV Pair show ?thesis
          by (auto simp: Let_def split: if_splits prod.splits dest: Cons.IH)
      qed
    qed
  qed (use Cons.prems in \<open>auto simp: Let_def\<close>)
qed

lemma xT_emit_calls:
  assumes "shift_ctx_topic args = (ctx, topic, args')"
  shows "call_in_order invk args' (map (\<lambda>(t, th, r). (t, th)) (snd (xT_emit invk args st))) st
       = (map (snd \<circ> snd) (snd (xT_emit invk args st)), snd (fst (xT_emit invk args st)))"
proof (cases "p_filter (queue st) topic")
  case (Inl e)
  with assms show ?thesis by (simp add: xT_emit_def)
next
  case (Inr tq)
  then have e: "xT_emit invk args st = emit_loop invk args' (sort_tasks tq) ctx Undefined st"
    using assms by (simp add: xT_emit_def p_emit_def)
  show ?thesis
    unfolding e
    using emit_loop_calls_rel [of invk args' "sort_tasks tq" ctx Undefined st]
    by (metis prod.collapse)
qed

section \<open>The claims about the static dispatcher\<close>

text \<open>
  C1 (the code departs from it).  The claim: a task registered with \<open>once\<close> is removed from
  its collection after the first emit that executes it.  The code calls \<^verbatim>\<open>removeTask(task)\<close>,
  a function that is defined nowhere: after \<^verbatim>\<open>on('t', cb, {once:1})\<close> the call \<^verbatim>\<open>emit('t')\<close>
  runs \<open>cb\<close> and then throws a ReferenceError; the state is what it was, the task is still in
  the queue, and the next \<^verbatim>\<open>emit('t')\<close> runs \<open>cb\<close> again.
\<close>

theorem once_never_removed:
  "fst (xT_emit (call env (Suc d)) [Str ''t''] (once_scenario (FnV (User n))))
     = (Inl (ReferenceError ''removeTask is not defined''), once_scenario (FnV (User n)))
   \<and> queue (once_scenario (FnV (User n))) = [Task ''t'' (FnV (User n)) 0 0 1 Undefined]
   \<and> map fst (snd (xT_emit (call env (Suc d)) [Str ''t''] (once_scenario (FnV (User n)))))
     = [Task ''t'' (FnV (User n)) 0 0 1 Undefined]
   \<and> map fst (snd (xT_emit (call env (Suc d)) [Str ''t'']
        (snd (fst (xT_emit (call env (Suc d)) [Str ''t''] (once_scenario (FnV (User n))))))))
     = [Task ''t'' (FnV (User n)) 0 0 1 Undefined]"
  by (simp add: once_scenario_def run_simps)

text \<open>
  C2 (the code departs from it).  The claim: every task of one emit gets its own context,
  resolved as emit-time context, else the task's \<open>ctx\<close>, else the task.  The loop assigns the
  resolved context to the variable \<open>ctx\<close> it tests in the next round, so from the second task
  on every callback gets the context of the first: with the tasks' contexts \<open>A\<close> and \<open>B\<close>,
  both callbacks are called with \<open>A\<close>.
\<close>

theorem ctx_of_first_task_sticks:
  "map (fst \<circ> snd) (snd (xT_emit (call env (Suc d)) [Str ''t''] ctx_scenario)) = [Obj 1, Obj 1]
   \<and> map (t_ctx \<circ> fst) (snd (xT_emit (call env (Suc d)) [Str ''t''] ctx_scenario)) = [Obj 1, Obj 2]"
  by (simp add: ctx_scenario_def run_simps)

text \<open>
  C5 (the code departs from it).  The claim: emit returns the last truthy return value, and
  the \<^verbatim>\<open>undefined\<close> default without throwing when every executed callback returns a falsy
  value.  With \<^verbatim>\<open>on('t', () => 0, {once:1})\<close> the only callback returns \<^verbatim>\<open>0\<close>, and \<^verbatim>\<open>emit('t')\<close>
  throws the ReferenceError of C1 instead of returning.
\<close>

theorem emit_throws_after_falsy_once:
  "fst (fst (xT_emit (call demo_env (Suc d)) [Str ''t''] (once_scenario (FnV (User 0)))))
     = Inl (ReferenceError ''removeTask is not defined'')
   \<and> map (snd \<circ> snd) (snd (xT_emit (call demo_env (Suc d)) [Str ''t''] (once_scenario (FnV (User 0)))))
     = [Inr (Num 0)]"
  by (simp add: once_scenario_def run_simps demo_env_def)

text \<open>Apart from that defect the value is as specified: when no task of the topic has
  \<open>once\<close> set and every callback returns, emit returns the last truthy value among the
  return values of the callbacks it called, and \<^verbatim>\<open>undefined\<close> when there is none.\<close>

theorem emit_value_without_once:
  assumes "shift_ctx_topic args = (ctx, Str topic, args')"
    and "\<forall>t \<in> set (filter (\<lambda>t. t_topic t = topic) (queue st)). t_once t = 0
             \<and> (\<forall>th s. \<exists>f v s'. t_cb t = FnV f \<and> invk f th args' s = (Inr v, s'))"
  shows "fst (fst (xT_emit invk args st))
           = Inr (last_truthy Undefined (map (snd \<circ> snd) (snd (xT_emit invk args st))))"
proof -
  let ?m = "filter (\<lambda>t. t_topic t = topic) (queue st)"
  have e: "xT_emit invk args st = emit_loop invk args' (sort_tasks ?m) ctx Undefined st"
    using assms(1) by (simp add: xT_emit_def p_filter_def comparable_def p_emit_def)
  have "\<forall>t \<in> set (sort_tasks ?m). t_once t = 0
             \<and> (\<forall>th s. \<exists>f v s'. t_cb t = FnV f \<and> invk f th args' s = (Inr v, s'))"
    using assms(2) by (simp only: set_sort_tasks)
  from emit_loop_returns [of "sort_tasks ?m" invk args' ctx Undefined st] this
  obtain v st' where r: "fst (emit_loop invk args' (sort_tasks ?m) ctx Undefined st) = (Inr v, st')"
    by blast
  then obtain fired where
    "emit_loop invk args' (sort_tasks ?m) ctx Undefined st = ((Inr v, st'), fired)"
    by (metis prod.collapse)
  then show ?thesis
    unfolding e using emit_loop_last_truthy by fastforce
qed

theorem emit_value_without_once_witness:
  "shift_ctx_topic [Str ''t''] = (Null, Str ''t'', [])
   \<and> list_all (\<lambda>t. t_once t = 0 \<and> t_cb t \<in> FnV ` User ` {1, 2, 3})
        (filter (\<lambda>t. t_topic t = ''t'') (queue stop_scenario))
   \<and> fst (fst (xT_emit (call demo_env 1) [Str ''t''] stop_scenario)) = Inr (Num 2)
   \<and> map (snd \<circ> snd) (snd (xT_emit (call demo_env 1) [Str ''t''] stop_scenario))
        = [Inr (Num 1), Inr (Num 2)]
   \<and> last_truthy Undefined [Inr (Num 1), Inr (Num 2)] = Num 2"
  using emit_value_without_once [of "[Str ''t'']" Null "''t''" "[]" stop_scenario "call demo_env 1"]
  by (simp add: stop_scenario_def run_simps demo_env_def last_truthy_def)

text \<open>
  C6.  When the tasks registered for a topic have pairwise distinct \<open>sort\<close> values, an emit of
  that topic calls their callbacks in strictly ascending order of \<open>sort\<close>.  The tasks in the
  list of invocations are an initial stretch of the one strictly ascending arrangement of
  all the topic's tasks.  The list is what happened: calling the callbacks of the listed
  tasks one after the other, with the listed \<^verbatim>\<open>this\<close> and the emit's arguments, from the
  state the emit started in, gives the listed results and the state the emit ends in.
  When nothing ends the loop early (no task has \<open>once\<close> or \<open>stop\<close> set and every callback
  returns) all the topic's tasks are called and the emit returns the last truthy result.
  The first hypothesis reads the topic off the argument list, with or without a leading
  context object.
\<close>

theorem emit_ascending:
  assumes "shift_ctx_topic args = (ctx, Str topic, args')"
    and "distinct (map t_sort (filter (\<lambda>t. t_topic t = topic) (queue st)))"
  shows "prefix (map fst (snd (xT_emit invk args st)))
           (sort_tasks (filter (\<lambda>t. t_topic t = topic) (queue st)))
       \<and> sorted_wrt (\<lambda>a b. t_sort a < t_sort b)
           (sort_tasks (filter (\<lambda>t. t_topic t = topic) (queue st)))
       \<and> mset (sort_tasks (filter (\<lambda>t. t_topic t = topic) (queue st)))
           = mset (filter (\<lambda>t. t_topic t = topic) (queue st))
       \<and> sorted_wrt (\<lambda>a b. t_sort a < t_sort b) (map fst (snd (xT_emit invk args st)))
       \<and> call_in_order invk args' (map (\<lambda>(t, th, r). (t, th)) (snd (xT_emit invk args st))) st
           = (map (snd \<circ> snd) (snd (xT_emit invk args st)), snd (fst (xT_emit invk args st)))
       \<and> ((\<forall>t \<in> set (filter (\<lambda>t. t_topic t = topic) (queue st)).
              t_once t = 0 \<and> t_stop t = 0
              \<and> (\<forall>th s. \<exists>f v s'. t_cb t = FnV f \<and> invk f th args' s = (Inr v, s')))
           \<longrightarrow> map fst (snd (xT_emit invk args st))
                 = sort_tasks (filter (\<lambda>t. t_topic t = topic) (queue st))
               \<and> fst (fst (xT_emit invk args st))
                 = Inr (last_truthy Undefined (map (snd \<circ> snd) (snd (xT_emit invk args st)))))"
proof -
  let ?m = "filter (\<lambda>t. t_topic t = topic) (queue st)"
  have e: "xT_emit invk args st = p_emit invk ?m args' ctx st"
    using assms(1) by (simp add: xT_emit_def p_filter_def comparable_def)
  have p: "prefix (map fst (snd (xT_emit invk args st))) (sort_tasks ?m)"
    unfolding e p_emit_def by (rule fired_prefix)
  have s: "sorted_wrt (\<lambda>a b. t_sort a < t_sort b) (sort_tasks ?m)"
    using assms(2) by (rule strict_sort_tasks)
  from p s have f: "sorted_wrt (\<lambda>a b. t_sort a < t_sort b) (map fst (snd (xT_emit invk args st)))"
    by (rule sorted_wrt_prefix)
  have c: "call_in_order invk args' (map (\<lambda>(t, th, r). (t, th)) (snd (xT_emit invk args st))) st
           = (map (snd \<circ> snd) (snd (xT_emit invk args st)), snd (fst (xT_emit invk args st)))"
    using assms(1) by (rule xT_emit_calls)
  have a: "map fst (snd (xT_emit invk args st)) = sort_tasks ?m
         \<and> fst (fst (xT_emit invk args st))
             = Inr (last_truthy Undefined (map (snd \<circ> snd) (snd (xT_emit invk args st))))"
    if h: "\<forall>t \<in> set ?m. t_once t = 0 \<and> t_stop t = 0
              \<and> (\<forall>th s. \<exists>f v s'. t_cb t = FnV f \<and> invk f th args' s = (Inr v, s'))"
  proof -
    have h': "\<forall>t \<in> set (sort_tasks ?m). t_once t = 0 \<and> t_stop t = 0
              \<and> (\<forall>th s. \<exists>f v s'. t_cb t = FnV f \<and> invk f th args' s = (Inr v, s'))"
      using h by (simp only: set_sort_tasks)
    from fired_all [of "sort_tasks ?m" invk args' ctx Undefined st] h'
    obtain v st' where
      1: "map fst (snd (emit_loop invk args' (sort_tasks ?m) ctx Undefined st)) = sort_tasks ?m" and
      2: "fst (emit_loop invk args' (sort_tasks ?m) ctx Undefined st) = (Inr v, st')"
      by blast
    from 2 obtain fired where
      3: "emit_loop invk args' (sort_tasks ?m) ctx Undefined st = ((Inr v, st'), fired)"
      by (metis prod.collapse)
    from emit_loop_last_truthy [OF 3] 1 3 show ?thesis
      unfolding e p_emit_def by simp
  qed
  from p s f c a show ?thesis by (simp add: mset_sort_tasks)
qed

theorem emit_ascending_witness:
  "shift_ctx_topic [Str ''t'', Num 7] = (Null, Str ''t'', [Num 7])
   \<and> distinct (map t_sort (filter (\<lambda>t. t_topic t = ''t'') (queue order_scenario)))
   \<and> map t_sort (filter (\<lambda>t. t_topic t = ''t'') (queue order_scenario)) = [5, -3, 1]
   \<and> list_all (\<lambda>t. t_once t = 0 \<and> t_stop t = 0 \<and> t_cb t \<in> FnV ` User ` {1, 2, 3})
        (filter (\<lambda>t. t_topic t = ''t'') (queue order_scenario))
   \<and> map (t_sort \<circ> fst) (snd (xT_emit (call demo_env 1) [Str ''t'', Num 7] order_scenario)) = [-3, 1, 5]
   \<and> map (t_cb \<circ> fst) (snd (xT_emit (call demo_env 1) [Str ''t'', Num 7] order_scenario))
        = [FnV (User 1), FnV (User 2), FnV (User 3)]
   \<and> map (snd \<circ> snd) (snd (xT_emit (call demo_env 1) [Str ''t'', Num 7] order_scenario))
        = [Inr (Num 1), Inr (Num 2), Inr (Num 3)]
   \<and> fst (xT_emit (call demo_env 1) [Str ''t'', Num 7] order_scenario) = (Inr (Num 3), order_scenario)
   \<and> sorted_wrt (\<lambda>a b. t_sort a < t_sort b)
        (map fst (snd (xT_emit (call demo_env 1) [Str ''t'', Num 7] order_scenario)))
   \<and> map fst (snd (xT_emit (call demo_env 1) [Str ''t'', Num 7] order_scenario))
        = sort_tasks (filter (\<lambda>t. t_topic t = ''t'') (queue order_scenario))"
  using emit_ascending [of "[Str ''t'', Num 7]" Null "''t''" "[Num 7]" order_scenario "call demo_env 1"]
  by (simp add: order_scenario_def run_simps demo_env_def)

text \<open>
  C7 (the code departs from it).  The claim: a task with \<open>stop\<close> set ends the loop right
  after its callback has been called and its \<open>once\<close> removal applied.  The \<open>once\<close> step comes
  before the \<open>stop\<close> test and is the call of the undefined \<^verbatim>\<open>removeTask\<close> (C1): after
  \<^verbatim>\<open>on('t', cb1, {once:1, stop:1}); on('t', cb2, {sort:1})\<close>, \<^verbatim>\<open>emit('t')\<close> calls \<open>cb1\<close> and throws a
  ReferenceError; nothing is removed, and the loop ends by the exception, not by \<open>stop\<close>.
\<close>

theorem stop_with_once_throws:
  "fst (xT_emit (call env (Suc d)) [Str ''t''] once_stop_scenario)
     = (Inl (ReferenceError ''removeTask is not defined''), once_stop_scenario)
   \<and> queue once_stop_scenario
     = [Task ''t'' (FnV (User 1)) 0 1 1 Undefined, Task ''t'' (FnV (User 2)) 1 0 0 Undefined]
   \<and> map fst (snd (xT_emit (call env (Suc d)) [Str ''t''] once_stop_scenario))
     = [Task ''t'' (FnV (User 1)) 0 1 1 Undefined]"
  by (simp add: once_stop_scenario_def run_simps)

text \<open>
  What \<open>stop\<close> does by itself is as described.  Whatever tasks follow a task with \<open>stop\<close> set
  in the sorted sequence, the outcome, the state and the callbacks called are those of the
  sequence cut after that task; and in every emit, every callback called but the last
  belongs to a task without \<open>stop\<close>.  In particular, after
  \<^verbatim>\<open>on('t', cb1, {sort:-1}); on('t', cb2, {sort:1, stop:1}); on('t', cb3, {sort:2})\<close>,
  \<^verbatim>\<open>emit('t')\<close> calls \<open>cb1\<close>, then \<open>cb2\<close>, and never \<open>cb3\<close>.
\<close>

theorem stop_halts:
  "(t_stop task \<noteq> 0 \<longrightarrow>
      emit_loop invk args (pre @ task # post) ctx ret st
        = emit_loop invk args (pre @ [task]) ctx ret st)
   \<and> (\<forall>x \<in> set (butlast (snd (xT_emit invk args st))). t_stop (fst x) = 0)
   \<and> map (t_cb \<circ> fst) (snd (xT_emit (call env (Suc d)) [Str ''t''] stop_scenario))
        = [FnV (User 1), FnV (User 2)]"
proof (intro conjI)
  show "t_stop task \<noteq> 0 \<longrightarrow>
      emit_loop invk args (pre @ task # post) ctx ret st
        = emit_loop invk args (pre @ [task]) ctx ret st"
    using stop_halts_aux by blast
  show "\<forall>x \<in> set (butlast (snd (xT_emit invk args st))). t_stop (fst x) = 0"
    by (rule stop_is_last)
  show "map (t_cb \<circ> fst) (snd (xT_emit (call env (Suc d)) [Str ''t''] stop_scenario))
        = [FnV (User 1), FnV (User 2)]"
    by (simp add: stop_scenario_def run_simps)
qed

theorem stop_halts_witness:
  "t_stop (Task ''t'' (FnV (User 2)) 1 1 0 Undefined) \<noteq> 0
   \<and> emit_loop (call demo_env 1) [] ([Task ''t'' (FnV (User 1)) (-1) 0 0 Undefined]
        @ Task ''t'' (FnV (User 2)) 1 1 0 Undefined # [Task ''t'' (FnV (User 3)) 2 0 0 Undefined])
        Null Undefined init
     = ((Inr (Num 2), init),
        [(Task ''t'' (FnV (User 1)) (-1) 0 0 Undefined,
          TaskV (Task ''t'' (FnV (User 1)) (-1) 0 0 Undefined), Inr (Num 1)),
         (Task ''t'' (FnV (User 2)) 1 1 0 Undefined,
          TaskV (Task ''t'' (FnV (User 1)) (-1) 0 0 Undefined), Inr (Num 2))])
   \<and> map (t_stop \<circ> fst) (snd (xT_emit (call demo_env 1) [Str ''t''] stop_scenario)) = [0, 1]
   \<and> map t_stop (queue stop_scenario) = [0, 1, 0]"
  using stop_halts [where task = "Task ''t'' (FnV (User 2)) 1 1 0 Undefined"
      and invk = "call demo_env 1" and args = "[]"
      and pre = "[Task ''t'' (FnV (User 1)) (-1) 0 0 Undefined]"
      and post = "[Task ''t'' (FnV (User 3)) 2 0 0 Undefined]"
      and ctx = Null and ret = Undefined and st = init]
  by (simp add: stop_scenario_def run_simps demo_env_def)

text \<open>
  C10.  Every \<open>on\<close> appends the task it returns to the queue.  The options are spread last:
  a \<open>topic\<close> key in \<open>opts\<close> replaces the positional topic of the stored task, so that an emit
  of the replacing topic finds the task and an emit of the positional one does not; a \<open>cb\<close>
  key replaces the positional callback of the stored task.  Without the key the stored
  task has the positional value.
\<close>

theorem on_opts_override:
  "queue (snd (xT_on topic cb opts st)) = queue st @ [fst (xT_on topic cb opts st)]
   \<and> (o_topic opts = Some tp \<longrightarrow>
        t_topic (last (queue (snd (xT_on topic cb opts st)))) = tp
        \<and> p_filter (queue (snd (xT_on topic cb opts st))) (Str tp)
            = Inr (filter (\<lambda>t. t_topic t = tp) (queue st) @ [last (queue (snd (xT_on topic cb opts st)))])
        \<and> (topic \<noteq> tp \<longrightarrow>
              p_filter (queue (snd (xT_on topic cb opts st))) (Str topic)
                = Inr (filter (\<lambda>t. t_topic t = topic) (queue st))))
   \<and> (o_topic opts = None \<longrightarrow> t_topic (last (queue (snd (xT_on topic cb opts st)))) = topic)
   \<and> (o_cb opts = Some c \<longrightarrow> t_cb (last (queue (snd (xT_on topic cb opts st)))) = c)
   \<and> (o_cb opts = None \<longrightarrow> t_cb (last (queue (snd (xT_on topic cb opts st)))) = cb)"
  by (auto simp: xT_on_def p_on_def p_filter_def comparable_def Let_def)

theorem on_opts_override_witness:
  "queue (snd (xT_on ''a'' (FnV (User 1)) (Opts (Some ''b'') None None None None None) init))
     = [Task ''b'' (FnV (User 1)) 0 0 0 Undefined]
   \<and> p_filter (queue (snd (xT_on ''a'' (FnV (User 1)) (Opts (Some ''b'') None None None None None) init))) (Str ''b'')
        = Inr [Task ''b'' (FnV (User 1)) 0 0 0 Undefined]
   \<and> p_filter (queue (snd (xT_on ''a'' (FnV (User 1)) (Opts (Some ''b'') None None None None None) init))) (Str ''a'')
        = Inr []
   \<and> queue (snd (xT_on ''a'' (FnV (User 1)) (Opts None (Some (FnV (User 2))) None None None None) init))
     = [Task ''a'' (FnV (User 2)) 0 0 0 Undefined]"
  using on_opts_override [where opts = "Opts (Some ''b'') None None None None None" and tp = "''b''"
      and topic = "''a''" and cb = "FnV (User 1)" and st = init and c = "FnV (User 1)"]
    on_opts_override [where opts = "Opts None (Some (FnV (User 2))) None None None None" and tp = "''b''"
      and topic = "''a''" and cb = "FnV (User 1)" and st = init and c = "FnV (User 2)"]
  by (simp add: xT_on_def p_on_def p_filter_def comparable_def init_def Let_def)


section \<open>Feature objects and the constructor\<close>

lemmas inst_simps = new_xT_def instances_get_def object_prototype_keys_def effective_features_def
  spread_def object_entries_def object_keys_def array_index_def is_digit_def register_features_def
  feature_topic_def proxy_call_def proxy_get_def feature_invoker_def filter_cb_def nth_arg_def
  on_bound_def opts_of_def local_queue_def inst_emit_def

text \<open>The state after \<^verbatim>\<open>new xT('u')\<close>, and the state of the instance scenario.\<close>

lemma new_u: "snd (new_xT ''u'' [] init) =
  \<lparr>queue =
    [Task ''$u:filter'' (FnV DefaultFilter) 0 0 0 Undefined,
     Task ''$u:queue'' (FnV (QueueAcc ''u'')) 0 0 0 Undefined,
     Task ''$u:on'' (FnV (OnBound ''u'')) 0 0 0 Undefined,
     Task ''$u:emit'' (FnV (InstEmit ''u'')) 0 0 0 Undefined],
    instances = [(''u'', [''filter'', ''queue'', ''on'', ''emit''])],
    queues = [], console = []\<rparr>"
  by (simp add: inst_simps run_simps)

lemma inst_scenario_eq: "inst_scenario =
  \<lparr>queue =
    [Task ''$u:filter'' (FnV DefaultFilter) 0 0 0 Undefined,
     Task ''$u:queue'' (FnV (QueueAcc ''u'')) 0 0 0 Undefined,
     Task ''$u:on'' (FnV (OnBound ''u'')) 0 0 0 Undefined,
     Task ''$u:emit'' (FnV (InstEmit ''u'')) 0 0 0 Undefined],
    instances = [(''u'', [''filter'', ''queue'', ''on'', ''emit''])],
    queues =
      [(''u'',
        [Task ''foo'' (FnV (User 1)) 0 0 0 Undefined,
         Task ''bar'' (FnV (User 2)) 0 0 0 Undefined,
         Task ''topic'' (FnV (User 9)) 0 0 0 Undefined,
         Task ''topic'' (FnV (User 3)) (- 1) 0 0 Undefined])],
    console = []\<rparr>"
  unfolding inst_scenario_def new_u
  by (simp add: proxy_call_def proxy_get_def feature_invoker_def feature_topic_def
      on_bound_def opts_of_def local_queue_def nth_arg_def run_simps)

lemma map_of_set_prop:
  "map_of (set_prop ps k v) k' = (if k' = k then Some v else map_of ps k')"
  by (induction ps k v rule: set_prop.induct) auto

lemma keys_set_prop: "fst ` set (set_prop ps k v) = insert k (fst ` set ps)"
  by (induction ps k v rule: set_prop.induct) auto

lemma distinct_set_prop:
  "distinct (map fst ps) \<Longrightarrow> distinct (map fst (set_prop ps k v))"
  by (induction ps k v rule: set_prop.induct) (auto simp: keys_set_prop)

lemma spread_snoc: "spread obj (src @ [(k, v)]) = set_prop (spread obj src) k v"
  by (simp add: spread_def)

lemma spread_Nil: "spread obj [] = obj"
  by (simp add: spread_def)

lemma map_of_spread:
  "map_of (spread obj src) k =
     (case map_of (spread [] src) k of Some v \<Rightarrow> Some v | None \<Rightarrow> map_of obj k)"
proof (induction src rule: rev_induct)
  case Nil
  show ?case by (simp add: spread_Nil)
next
  case (snoc p src)
  obtain k' v' where p: "p = (k', v')" by (cases p)
  show ?case using snoc by (simp add: p spread_snoc map_of_set_prop)
qed

lemma distinct_spread:
  "distinct (map fst obj) \<Longrightarrow> distinct (map fst (spread obj src))"
proof (induction src rule: rev_induct)
  case Nil
  then show ?case by (simp add: spread_Nil)
next
  case (snoc p src)
  obtain k' v' where p: "p = (k', v')" by (cases p)
  show ?case using snoc by (simp add: p spread_snoc distinct_set_prop)
qed

lemma distinct_effective_features: "distinct (map fst (effective_features name fs))"
  by (simp add: effective_features_def distinct_set_prop distinct_spread)

lemma mset_object_entries: "mset (object_entries obj) = mset obj"
  by (simp add: object_entries_def)

lemma set_object_entries: "set (object_entries obj) = set obj"
  by (metis mset_object_entries set_mset_mset)

lemma distinct_object_entries:
  "distinct (map fst obj) \<Longrightarrow> distinct (map fst (object_entries obj))"
proof -
  assume d: "distinct (map fst obj)"
  have "mset (map fst (object_entries obj)) = mset (map fst obj)"
    by (metis mset_map mset_object_entries)
  then show ?thesis using d by (metis mset_eq_imp_distinct_iff)
qed

lemma filter_key_distinct:
  "distinct (map fst xs) \<Longrightarrow> map_of xs k = Some v \<Longrightarrow> filter (\<lambda>p. fst p = k) xs = [(k, v)]"
proof (induction xs)
  case Nil
  then show ?case by simp
next
  case (Cons p xs)
  obtain k' v' where p: "p = (k', v')" by (cases p)
  show ?case
  proof (cases "k' = k")
    case True
    with Cons.prems p have "v' = v" by simp
    moreover have "filter (\<lambda>p. fst p = k) xs = []"
      using Cons.prems(1) True p by (auto simp: filter_empty_conv)
    ultimately show ?thesis using True p by simp
  next
    case False
    with Cons p show ?thesis by simp
  qed
qed

lemma map_of_object_entries:
  "distinct (map fst obj) \<Longrightarrow> map_of (object_entries obj) = map_of obj"
  by (rule map_of_inject_set [THEN iffD2])
     (simp_all add: distinct_object_entries set_object_entries)

lemma feature_topic_inj: "feature_topic name k = feature_topic name k' \<longleftrightarrow> k = k'"
  by (simp add: feature_topic_def)

lemma queue_register_features:
  "queue (register_features name entries st)
     = queue st @ map (\<lambda>(k, v). Task (feature_topic name k) v 0 0 0 Undefined) entries"
proof (induction entries arbitrary: st)
  case Nil
  show ?case by (simp add: register_features_def)
next
  case (Cons p es)
  obtain k v where p: "p = (k, v)" by (cases p)
  have "register_features name (p # es) st
          = register_features name es (snd (xT_on (feature_topic name k) v no_opts st))"
    by (simp add: register_features_def p)
  then show ?case
    by (simp add: Cons.IH p xT_on_def p_on_def no_opts_def Let_def)
qed

lemma other_register_features:
  "instances (register_features name entries st) = instances st
   \<and> queues (register_features name entries st) = queues st
   \<and> console (register_features name entries st) = console st"
proof (induction entries arbitrary: st)
  case Nil
  show ?case by (simp add: register_features_def)
next
  case (Cons p es)
  obtain k v where p: "p = (k, v)" by (cases p)
  have "register_features name (p # es) st
          = register_features name es (snd (xT_on (feature_topic name k) v no_opts st))"
    by (simp add: register_features_def p)
  then show ?case
    by (simp add: Cons.IH p xT_on_def p_on_def no_opts_def Let_def)
qed

lemma registered_feature:
  assumes "map_of (effective_features name fs) k = Some v"
  shows "filter (\<lambda>t. t_topic t = feature_topic name k)
           (map (\<lambda>(k, v). Task (feature_topic name k) v 0 0 0 Undefined)
              (object_entries (effective_features name fs)))
         = [Task (feature_topic name k) v 0 0 0 Undefined]"
proof -
  let ?es = "object_entries (effective_features name fs)"
  have d: "distinct (map fst ?es)"
    by (simp add: distinct_object_entries distinct_effective_features)
  have m: "map_of ?es k = Some v"
    using assms by (simp add: map_of_object_entries distinct_effective_features)
  have "filter (\<lambda>t. t_topic t = feature_topic name k)
           (map (\<lambda>(k, v). Task (feature_topic name k) v 0 0 0 Undefined) ?es)
        = map (\<lambda>(k, v). Task (feature_topic name k) v 0 0 0 Undefined)
            (filter (\<lambda>p. fst p = k) ?es)"
    by (simp add: filter_map comp_def case_prod_beta feature_topic_inj)
  also have "\<dots> = [Task (feature_topic name k) v 0 0 0 Undefined]"
    using filter_key_distinct [OF d m] by simp
  finally show ?thesis .
qed

text \<open>
  C9.  Whatever features the caller supplies, the feature object has the built-in \<open>queue\<close>,
  \<open>on\<close> and \<open>emit\<close>; its \<open>filter\<close> is the supplied one when there is one and the default
  filter otherwise; every other key is the caller's.  And these are the callbacks the
  constructor registers: for a name not yet in use, the tasks it appends to the core queue
  hold, under each of the four feature topics, exactly one task, with that callback.
\<close>

theorem builtins_win:
  "map_of (effective_features name fs) ''queue'' = Some (FnV (QueueAcc name))
   \<and> map_of (effective_features name fs) ''on'' = Some (FnV (OnBound name))
   \<and> map_of (effective_features name fs) ''emit'' = Some (FnV (InstEmit name))
   \<and> map_of (effective_features name fs) ''filter''
       = Some (case map_of (spread [] fs) ''filter'' of Some f \<Rightarrow> f | None \<Rightarrow> FnV DefaultFilter)
   \<and> (k \<notin> {''filter'', ''queue'', ''on'', ''emit''} \<longrightarrow>
        map_of (effective_features name fs) k = map_of (spread [] fs) k)
   \<and> (instances_get st name = None \<longrightarrow>
        (\<exists>new. queue (snd (new_xT name fs st)) = queue st @ new
           \<and> filter (\<lambda>t. t_topic t = feature_topic name ''queue'') new
               = [Task (feature_topic name ''queue'') (FnV (QueueAcc name)) 0 0 0 Undefined]
           \<and> filter (\<lambda>t. t_topic t = feature_topic name ''on'') new
               = [Task (feature_topic name ''on'') (FnV (OnBound name)) 0 0 0 Undefined]
           \<and> filter (\<lambda>t. t_topic t = feature_topic name ''emit'') new
               = [Task (feature_topic name ''emit'') (FnV (InstEmit name)) 0 0 0 Undefined]
           \<and> filter (\<lambda>t. t_topic t = feature_topic name ''filter'') new
               = [Task (feature_topic name ''filter'')
                    (case map_of (spread [] fs) ''filter'' of Some f \<Rightarrow> f | None \<Rightarrow> FnV DefaultFilter)
                    0 0 0 Undefined]))"
proof -
  have q: "map_of (effective_features name fs) ''queue'' = Some (FnV (QueueAcc name))"
    by (simp add: effective_features_def map_of_set_prop)
  have o: "map_of (effective_features name fs) ''on'' = Some (FnV (OnBound name))"
    by (simp add: effective_features_def map_of_set_prop)
  have e: "map_of (effective_features name fs) ''emit'' = Some (FnV (InstEmit name))"
    by (simp add: effective_features_def map_of_set_prop)
  have f: "map_of (effective_features name fs) ''filter''
       = Some (case map_of (spread [] fs) ''filter'' of Some f \<Rightarrow> f | None \<Rightarrow> FnV DefaultFilter)"
    by (simp add: effective_features_def map_of_set_prop map_of_spread [of "[(''filter'', FnV DefaultFilter)]"]
        split: option.splits)
  have r: "k \<notin> {''filter'', ''queue'', ''on'', ''emit''} \<longrightarrow>
        map_of (effective_features name fs) k = map_of (spread [] fs) k"
    by (simp add: effective_features_def map_of_set_prop map_of_spread [of "[(''filter'', FnV DefaultFilter)]"]
        split: option.splits)
  have n: "instances_get st name = None \<Longrightarrow>
      queue (snd (new_xT name fs st)) = queue st @
        map (\<lambda>(k, v). Task (feature_topic name k) v 0 0 0 Undefined)
          (object_entries (effective_features name fs))"
    by (simp add: new_xT_def Let_def queue_register_features)
  show ?thesis
    using q o e f r n registered_feature [OF q] registered_feature [OF o]
      registered_feature [OF e] registered_feature [OF f]
    by blast
qed


theorem builtins_win_witness:
  "map_of (effective_features ''u''
       [(''filter'', FnV (User 7)), (''emit'', FnV (User 8)), (''extra'', FnV (User 9))]) ''emit''
     = Some (FnV (InstEmit ''u''))
   \<and> map_of (effective_features ''u''
       [(''filter'', FnV (User 7)), (''emit'', FnV (User 8)), (''extra'', FnV (User 9))]) ''filter''
     = Some (FnV (User 7))
   \<and> ''extra'' \<notin> {''filter'', ''queue'', ''on'', ''emit''}
   \<and> map_of (effective_features ''u''
       [(''filter'', FnV (User 7)), (''emit'', FnV (User 8)), (''extra'', FnV (User 9))]) ''extra''
     = Some (FnV (User 9))
   \<and> instances_get init ''u'' = None
   \<and> queue (snd (new_xT ''u''
       [(''filter'', FnV (User 7)), (''emit'', FnV (User 8)), (''extra'', FnV (User 9))] init))
     = [Task ''$u:filter'' (FnV (User 7)) 0 0 0 Undefined,
        Task ''$u:emit'' (FnV (InstEmit ''u'')) 0 0 0 Undefined,
        Task ''$u:extra'' (FnV (User 9)) 0 0 0 Undefined,
        Task ''$u:queue'' (FnV (QueueAcc ''u'')) 0 0 0 Undefined,
        Task ''$u:on'' (FnV (OnBound ''u'')) 0 0 0 Undefined]"
  using builtins_win [of "''u''"
      "[(''filter'', FnV (User 7)), (''emit'', FnV (User 8)), (''extra'', FnV (User 9))]"
      "''extra''" init]
  by (simp add: inst_simps run_simps)

text \<open>
  C8 (the code departs from it).  The claim: for every name the first construction creates
  and stores an instance, and later ones return it.  The constructor tests
  \<^verbatim>\<open>xT.#instances[name]\<close> on a plain object, which also finds what the object inherits: the
  first \<^verbatim>\<open>new xT('toString')\<close> logs "Return existing instance" and evaluates to
  \<^verbatim>\<open>Object.prototype.toString\<close>; no instance is stored and no feature is registered.
\<close>

theorem inherited_name_not_constructed:
  "new_xT ''toString'' fs init
     = (Inherited ''toString'', init\<lparr>console := [''Return existing instance'']\<rparr>)
   \<and> instances (snd (new_xT ''toString'' fs init)) = []
   \<and> queue (snd (new_xT ''toString'' fs init)) = []"
  by (simp add: new_xT_def instances_get_def init_def object_prototype_keys_def)


text \<open>For every other name the constructor does what the claim says: it returns the proxy
  of that name, and a second construction returns the same proxy, whatever features it is
  given, changing nothing but the console.\<close>

theorem construct_idempotent:
  assumes "name \<notin> set object_prototype_keys"
  shows "fst (new_xT name fs st) = Proxy name
       \<and> new_xT name fs' (snd (new_xT name fs st))
           = (Proxy name, (snd (new_xT name fs st))
                \<lparr>console := console (snd (new_xT name fs st)) @ [''Return existing instance'']\<rparr>)"
proof (cases "map_of (instances st) name")
  case None
  with assms have g: "instances_get st name = None"
    by (simp add: instances_get_def)
  have "map_of (instances (snd (new_xT name fs st))) name
          = Some (object_keys (effective_features name fs))"
    using None by (simp add: new_xT_def g Let_def other_register_features map_add_def)
  then have "instances_get (snd (new_xT name fs st)) name = Some (Proxy name)"
    by (simp add: instances_get_def)
  moreover have "fst (new_xT name fs st) = Proxy name"
    by (simp add: new_xT_def g Let_def)
  ultimately show ?thesis by (simp add: new_xT_def [of name fs'])
next
  case (Some ks)
  then have g: "\<And>s. instances s = instances st \<Longrightarrow> instances_get s name = Some (Proxy name)"
    by (simp add: instances_get_def)
  have 1: "new_xT name fs st = (Proxy name, st\<lparr>console := console st @ [''Return existing instance'']\<rparr>)"
    by (simp add: new_xT_def g)
  show ?thesis
    by (simp add: 1) (simp add: new_xT_def g)
qed

theorem construct_idempotent_witness:
  "''u'' \<notin> set object_prototype_keys
   \<and> fst (new_xT ''u'' [] init) = Proxy ''u''
   \<and> fst (new_xT ''u'' [(''filter'', FnV (User 7))] (snd (new_xT ''u'' [] init))) = Proxy ''u''
   \<and> queue (snd (new_xT ''u'' [(''filter'', FnV (User 7))] (snd (new_xT ''u'' [] init))))
        = queue (snd (new_xT ''u'' [] init))
   \<and> console (snd (new_xT ''u'' [(''filter'', FnV (User 7))] (snd (new_xT ''u'' [] init))))
        = [''Return existing instance'']"
  using construct_idempotent [of "''u''" "[]" init "[(''filter'', FnV (User 7))]"]
  unfolding new_u
  by (simp add: inst_simps run_simps)


section \<open>The claims about instances\<close>

lemma emit_loop_result:
  "emit_loop invk args ts ctx ret st = ((Inr v, st'), fired) \<Longrightarrow> v = ret \<or> truthy v"
proof (induction ts arbitrary: ctx ret st st' fired)
  case Nil
  then show ?case by simp
next
  case (Cons t ts)
  show ?case
  proof (cases "t_cb t")
    case (FnV f)
    show ?thesis
    proof (cases "invk f (this_arg (resolve_ctx ctx t) t) args st")
      case (Pair r s1)
      show ?thesis
      proof (cases r)
        case (Inl e)
        with Cons.prems FnV Pair show ?thesis by (simp add: Let_def)
      next
        case (Inr result)
        with Cons.prems FnV Pair show ?thesis
          by (auto simp: Let_def split: if_splits prod.splits dest: Cons.IH)
      qed
    qed
  qed (use Cons.prems in \<open>auto simp: Let_def\<close>)
qed

lemma p_emit_result:
  "p_emit invk q args ctx st = ((Inr v, st'), fired) \<Longrightarrow> v = Undefined \<or> truthy v"
  unfolding p_emit_def by (rule emit_loop_result)

lemma sort_tasks_single: "sort_tasks [t] = [t]"
  by (simp add: sort_tasks_def)

text \<open>Emitting a topic whose only task is a plain one (no flag, no \<open>ctx\<close>).\<close>

lemma xT_emit_single:
  assumes "filter (\<lambda>t. t_topic t = topic) (queue st) = [Task topic (FnV f) 0 0 0 Undefined]"
  shows "fst (xT_emit invk (Str topic # args) st) =
     (case invk f (TaskV (Task topic (FnV f) 0 0 0 Undefined)) args st of
        (Inl e, st') \<Rightarrow> (Inl e, st')
      | (Inr v, st') \<Rightarrow> (Inr (if truthy v then v else Undefined), st'))"
  using assms
  by (simp add: xT_emit_def shift_ctx_topic_def instanceof_Object_def p_filter_def comparable_def
      p_emit_def sort_tasks_single resolve_ctx_def this_arg_def truthy_def Let_def
      split: prod.splits sum.splits)

lemma filter_cb_own:
  "filter_cb st [QueueRef m, Str topic]
     = Inr (ArrV (filter (\<lambda>t. t_topic t = topic) (local_queue st m)))"
  by (simp add: filter_cb_def nth_arg_def p_filter_def comparable_def)

lemma inst_emit_default:
  assumes "filter (\<lambda>t. t_topic t = feature_topic name ''filter'') (queue st)
             = [Task (feature_topic name ''filter'') (FnV DefaultFilter) 0 0 0 Undefined]"
  shows "inst_emit (call env (Suc d)) name (Str topic # args) st
       = p_emit (call env (Suc d)) (filter (\<lambda>t. t_topic t = topic) (local_queue st name)) args Null st"
  by (simp add: inst_emit_def shift_ctx_topic_def instanceof_Object_def
      xT_emit_single [OF assms] filter_cb_own truthy_def)

lemma inst_emit_general:
  "call env (Suc d) (InstEmit name) this args st =
     (case shift_ctx_topic args of
        (ctx, topic, args') \<Rightarrow>
          (case fst (xT_emit (call env d)
                  [Str (feature_topic name ''filter''), QueueRef name, topic] st) of
             (Inl e, st') \<Rightarrow> (Inl e, st')
           | (Inr (ArrV topicQueue), st') \<Rightarrow> fst (p_emit (call env d) topicQueue args' ctx st')
           | (Inr (QueueRef m), st') \<Rightarrow> fst (p_emit_own (call env d) m args' ctx st')
           | (Inr _, st') \<Rightarrow> (Inl (TypeError ''topicQueue.sort is not a function''), st')))"
  by (simp add: inst_emit_def split: prod.splits sum.splits val.splits)

text \<open>A newly constructed instance with no \<open>filter\<close> of its own, on a core queue that holds
  no task under its \<open>emit\<close> and \<open>filter\<close> topics, is in the situation the second part of C4
  describes.\<close>

lemma constructed_instance_default:
  assumes "instances_get st name = None"
    and "map_of (spread [] fs) ''filter'' = None"
    and "filter (\<lambda>t. t_topic t = feature_topic name ''emit'') (queue st) = []"
    and "filter (\<lambda>t. t_topic t = feature_topic name ''filter'') (queue st) = []"
  shows "map_of (instances (snd (new_xT name fs st))) name = Some (object_keys (effective_features name fs))
       \<and> ''emit'' \<in> set (object_keys (effective_features name fs))
       \<and> filter (\<lambda>t. t_topic t = feature_topic name ''emit'') (queue (snd (new_xT name fs st)))
           = [Task (feature_topic name ''emit'') (FnV (InstEmit name)) 0 0 0 Undefined]
       \<and> filter (\<lambda>t. t_topic t = feature_topic name ''filter'') (queue (snd (new_xT name fs st)))
           = [Task (feature_topic name ''filter'') (FnV DefaultFilter) 0 0 0 Undefined]"
proof -
  let ?ef = "effective_features name fs"
  have n: "map_of (instances st) name = None"
    using assms(1) by (simp add: instances_get_def split: option.splits)
  have 1: "map_of (instances (snd (new_xT name fs st))) name = Some (object_keys ?ef)"
    using n by (simp add: new_xT_def assms(1) Let_def other_register_features map_add_def)
  have "''emit'' \<in> fst ` set ?ef"
    by (simp add: effective_features_def keys_set_prop)
  then have 2: "''emit'' \<in> set (object_keys ?ef)"
    by (simp add: object_keys_def set_object_entries)
  have q: "queue (snd (new_xT name fs st)) = queue st @
        map (\<lambda>(k, v). Task (feature_topic name k) v 0 0 0 Undefined) (object_entries ?ef)"
    by (simp add: new_xT_def assms(1) Let_def queue_register_features)
  have e: "map_of ?ef ''emit'' = Some (FnV (InstEmit name))"
    by (simp add: effective_features_def map_of_set_prop)
  have f: "map_of ?ef ''filter'' = Some (FnV DefaultFilter)"
    using assms(2)
    by (simp add: effective_features_def map_of_set_prop map_of_spread [of "[(''filter'', FnV DefaultFilter)]"])
  show ?thesis
    using 1 2 registered_feature [OF e] registered_feature [OF f]
    by (simp add: q assms(3,4))
qed

text \<open>
  C4.  The instance's \<open>emit\<close> function emits \<^verbatim>\<open>$<name>:filter\<close> on the core with the local
  collection and the topic, and runs \<^verbatim>\<open>#emit\<close> over the array that comes back, with the
  remaining arguments and the context.  When the instance's \<open>emit\<close> and \<open>filter\<close> topics hold
  just the tasks the constructor registered (the default filter, no hook),
  \<^verbatim>\<open>u.emit(topic, ...args)\<close> through the proxy is \<^verbatim>\<open>#emit\<close> run over the local tasks of that
  topic with the arguments \<open>args\<close>.
\<close>

theorem instance_emit_dispatch:
  "call env (Suc d) (InstEmit name) this args st =
     (case shift_ctx_topic args of
        (ctx, topic, args') \<Rightarrow>
          (case fst (xT_emit (call env d)
                  [Str (feature_topic name ''filter''), QueueRef name, topic] st) of
             (Inl e, st') \<Rightarrow> (Inl e, st')
           | (Inr (ArrV topicQueue), st') \<Rightarrow> fst (p_emit (call env d) topicQueue args' ctx st')
           | (Inr (QueueRef m), st') \<Rightarrow> fst (p_emit_own (call env d) m args' ctx st')
           | (Inr _, st') \<Rightarrow> (Inl (TypeError ''topicQueue.sort is not a function''), st')))
   \<and> (map_of (instances st) name = Some ks \<and> ''emit'' \<in> set ks
       \<and> filter (\<lambda>t. t_topic t = feature_topic name ''emit'') (queue st)
           = [Task (feature_topic name ''emit'') (FnV (InstEmit name)) 0 0 0 Undefined]
       \<and> filter (\<lambda>t. t_topic t = feature_topic name ''filter'') (queue st)
           = [Task (feature_topic name ''filter'') (FnV DefaultFilter) 0 0 0 Undefined]
      \<longrightarrow> proxy_call env (Suc (Suc (Suc (Suc d)))) name ''emit'' (Str topic' # rest) st
           = fst (p_emit (call env (Suc d))
                (filter (\<lambda>t. t_topic t = topic') (local_queue st name)) rest Null st))"
proof (intro conjI impI)
  show "call env (Suc d) (InstEmit name) this args st =
     (case shift_ctx_topic args of
        (ctx, topic, args') \<Rightarrow>
          (case fst (xT_emit (call env d)
                  [Str (feature_topic name ''filter''), QueueRef name, topic] st) of
             (Inl e, st') \<Rightarrow> (Inl e, st')
           | (Inr (ArrV topicQueue), st') \<Rightarrow> fst (p_emit (call env d) topicQueue args' ctx st')
           | (Inr (QueueRef m), st') \<Rightarrow> fst (p_emit_own (call env d) m args' ctx st')
           | (Inr _, st') \<Rightarrow> (Inl (TypeError ''topicQueue.sort is not a function''), st')))"
    by (rule inst_emit_general)
next
  assume a: "map_of (instances st) name = Some ks \<and> ''emit'' \<in> set ks
       \<and> filter (\<lambda>t. t_topic t = feature_topic name ''emit'') (queue st)
           = [Task (feature_topic name ''emit'') (FnV (InstEmit name)) 0 0 0 Undefined]
       \<and> filter (\<lambda>t. t_topic t = feature_topic name ''filter'') (queue st)
           = [Task (feature_topic name ''filter'') (FnV DefaultFilter) 0 0 0 Undefined]"
  obtain r st' fired where
    pe: "p_emit (call env (Suc d)) (filter (\<lambda>t. t_topic t = topic') (local_queue st name)) rest Null st
           = ((r, st'), fired)"
    by (metis prod.exhaust)
  have u: "\<And>v. r = Inr v \<Longrightarrow> (if truthy v then v else Undefined) = v"
    using p_emit_result pe by fastforce
  have "proxy_call env (Suc (Suc (Suc (Suc d)))) name ''emit'' (Str topic' # rest) st
      = fst (xT_emit (call env (Suc (Suc d))) (Str (feature_topic name ''emit'') # Str topic' # rest) st)"
    using a by (simp add: proxy_call_def proxy_get_def feature_invoker_def)
  also have "\<dots> = (r, st')"
    using u a by (cases r) (simp_all add: xT_emit_single inst_emit_default pe)
  finally show "proxy_call env (Suc (Suc (Suc (Suc d)))) name ''emit'' (Str topic' # rest) st
           = fst (p_emit (call env (Suc d))
                (filter (\<lambda>t. t_topic t = topic') (local_queue st name)) rest Null st)"
    by (simp add: pe)
qed

text \<open>\<^verbatim>\<open>u.emit('topic', 1, 2)\<close> in the instance scenario: the two local tasks of \<^verbatim>\<open>'topic'\<close> are
  called in the order of their \<open>sort\<close>, \<open>cb9\<close> returns its second argument \<^verbatim>\<open>2\<close>, and that is
  what the call returns.\<close>

theorem instance_emit_dispatch_witness:
  "map_of (instances inst_scenario) ''u'' = Some [''filter'', ''queue'', ''on'', ''emit'']
   \<and> ''emit'' \<in> set [''filter'', ''queue'', ''on'', ''emit'']
   \<and> filter (\<lambda>t. t_topic t = feature_topic ''u'' ''emit'') (queue inst_scenario)
        = [Task (feature_topic ''u'' ''emit'') (FnV (InstEmit ''u'')) 0 0 0 Undefined]
   \<and> filter (\<lambda>t. t_topic t = feature_topic ''u'' ''filter'') (queue inst_scenario)
        = [Task (feature_topic ''u'' ''filter'') (FnV DefaultFilter) 0 0 0 Undefined]
   \<and> proxy_call demo_env (Suc (Suc (Suc (Suc 0)))) ''u'' ''emit'' [Str ''topic'', Num 1, Num 2] inst_scenario
        = (Inr (Num 2), inst_scenario)
   \<and> snd (p_emit (call demo_env (Suc 0))
             (filter (\<lambda>t. t_topic t = ''topic'') (local_queue inst_scenario ''u''))
             [Num 1, Num 2] Null inst_scenario)
        = [(Task ''topic'' (FnV (User 3)) (- 1) 0 0 Undefined,
            TaskV (Task ''topic'' (FnV (User 3)) (- 1) 0 0 Undefined), Inr (Num 3)),
           (Task ''topic'' (FnV (User 9)) 0 0 0 Undefined,
            TaskV (Task ''topic'' (FnV (User 3)) (- 1) 0 0 Undefined), Inr (Num 2))]"
  using instance_emit_dispatch [where env = demo_env and d = 0 and name = "''u''"
      and this = Undefined and args = "[]" and st = inst_scenario
      and ks = "[''filter'', ''queue'', ''on'', ''emit'']" and topic' = "''topic''"
      and rest = "[Num 1, Num 2]"]
  unfolding inst_scenario_eq
  by (simp add: feature_topic_def local_queue_def nth_arg_def demo_env_def run_simps)

text \<open>
  C3 (the code departs from it).  The claim: a property that is no feature name gives an
  invoker that performs the instance's emit with the property name supplied in advance as
  the topic.  The trap returns \<^verbatim>\<open>xT.#instances[name].emit.bind(prop)\<close>: \<open>prop\<close> is bound as
  \<^verbatim>\<open>this\<close>, not as an argument, so the invoker is the instance's \<open>emit\<close> and the topic is the
  first argument of the call.  In the instance scenario \<^verbatim>\<open>u.foo('bar')\<close> emits \<^verbatim>\<open>'bar'\<close> and
  returns what \<open>cb2\<close> returns, as \<^verbatim>\<open>u.emit('bar')\<close> does; \<^verbatim>\<open>u.emit('foo', 'bar')\<close>, which the claim
  describes, returns what \<open>cb1\<close> returns.
\<close>

theorem unknown_property_drops_name:
  "proxy_get [''filter'', ''queue'', ''on'', ''emit''] ''u'' ''foo''
     = Inr (Bound (Bound CoreEmit Null [Str ''$u:emit'']) (Str ''foo'') [])
   \<and> fst (proxy_call demo_env (Suc (Suc (Suc (Suc (Suc (Suc d)))))) ''u'' ''foo'' [Str ''bar''] inst_scenario)
     = Inr (Num 2)
   \<and> fst (proxy_call demo_env (Suc (Suc (Suc (Suc (Suc d))))) ''u'' ''emit'' [Str ''bar''] inst_scenario)
     = Inr (Num 2)
   \<and> fst (proxy_call demo_env (Suc (Suc (Suc (Suc (Suc d))))) ''u'' ''emit'' [Str ''foo'', Str ''bar''] inst_scenario)
     = Inr (Num 1)"
  unfolding inst_scenario_eq
  by (simp add: proxy_call_def proxy_get_def feature_invoker_def feature_topic_def
      inst_emit_def filter_cb_def local_queue_def nth_arg_def demo_env_def run_simps)

text \<open>In general the property name plays no part: calling an unknown property of a proxy,
  other than \<^verbatim>\<open>name\<close>, is calling its \<open>emit\<close> (one bound function deeper).\<close>

theorem unknown_property_is_emit:
  assumes "map_of (instances st) name = Some ks" and "pname \<notin> set ks" and "''emit'' \<in> set ks"
    and "pname \<noteq> ''name''"
  shows "proxy_call env (Suc d) name pname args st = proxy_call env d name ''emit'' args st"
  using assms call_Bound_this [of env d CoreEmit Null "[Str (feature_topic name ''emit'')]" "Str pname" args st Undefined]
  by (simp add: proxy_call_def proxy_get_def feature_invoker_def)

theorem unknown_property_is_emit_witness:
  "map_of (instances inst_scenario) ''u'' = Some [''filter'', ''queue'', ''on'', ''emit'']
   \<and> ''foo'' \<notin> set [''filter'', ''queue'', ''on'', ''emit'']
   \<and> ''foo'' \<noteq> ''name''
   \<and> proxy_call demo_env (Suc (Suc (Suc (Suc (Suc (Suc 0)))))) ''u'' ''foo'' [Str ''bar''] inst_scenario
        = proxy_call demo_env (Suc (Suc (Suc (Suc (Suc 0))))) ''u'' ''emit'' [Str ''bar''] inst_scenario
   \<and> proxy_call demo_env (Suc (Suc (Suc (Suc (Suc 0))))) ''u'' ''emit'' [Str ''bar''] inst_scenario
        = (Inr (Num 2), inst_scenario)"
  using unknown_property_is_emit [of inst_scenario "''u''" "[''filter'', ''queue'', ''on'', ''emit'']"
      "''foo''" demo_env "Suc (Suc (Suc (Suc (Suc 0))))" "[Str ''bar'']"]
  unfolding inst_scenario_eq
  by (simp add: proxy_call_def proxy_get_def feature_invoker_def feature_topic_def
      inst_emit_def filter_cb_def local_queue_def nth_arg_def demo_env_def run_simps)

text \<open>Reading the property \<^verbatim>\<open>name\<close> of a proxy, when no feature of that name was supplied,
  throws.\<close>

lemma name_property_throws:
  "''name'' \<notin> set ks \<Longrightarrow> ''emit'' \<in> set ks \<Longrightarrow>
   proxy_get ks name ''name''
     = Inl (TypeError ''proxy get: the value of a non-writable, non-configurable property'')"
  by (simp add: proxy_get_def)

text \<open>When the filter of an instance hands back the instance's own collection, the emit
  sorts that collection in place: in the scenario \<^verbatim>\<open>v.emit('x')\<close> calls \<open>cb2\<close> and then \<open>cb1\<close>
  and leaves the collection in the order of \<open>sort\<close>.\<close>

lemma own_scenario_eq: "own_scenario =
  \<lparr>queue =
    [Task ''$v:filter'' (FnV (User 8)) 0 0 0 Undefined,
     Task ''$v:queue'' (FnV (QueueAcc ''v'')) 0 0 0 Undefined,
     Task ''$v:on'' (FnV (OnBound ''v'')) 0 0 0 Undefined,
     Task ''$v:emit'' (FnV (InstEmit ''v'')) 0 0 0 Undefined],
    instances = [(''v'', [''filter'', ''queue'', ''on'', ''emit''])],
    queues =
      [(''v'',
        [Task ''x'' (FnV (User 1)) 2 0 0 Undefined,
         Task ''y'' (FnV (User 2)) 1 0 0 Undefined])],
    console = []\<rparr>"
  by (simp add: own_scenario_def inst_simps run_simps)

lemma own_queue_sorted_in_place:
  "fst (proxy_call demo_env (Suc (Suc (Suc (Suc (Suc d))))) ''v'' ''emit'' [Str ''x''] own_scenario)
     = Inr (Num 1)
   \<and> local_queue own_scenario ''v''
     = [Task ''x'' (FnV (User 1)) 2 0 0 Undefined, Task ''y'' (FnV (User 2)) 1 0 0 Undefined]
   \<and> local_queue
        (snd (proxy_call demo_env (Suc (Suc (Suc (Suc (Suc d))))) ''v'' ''emit'' [Str ''x''] own_scenario))
        ''v''
     = [Task ''y'' (FnV (User 2)) 1 0 0 Undefined, Task ''x'' (FnV (User 1)) 2 0 0 Undefined]"
  unfolding own_scenario_eq
  by (simp add: proxy_call_def proxy_get_def feature_invoker_def feature_topic_def
      inst_emit_def p_emit_own_def local_queue_def nth_arg_def demo_env_def run_simps)


end
